theory Spec2Isabelle
  imports Main "HOL-Library.Sublist"
begin

section \<open>Python strings\<close>

text \<open>
  A Python \<^verbatim>\<open>str\<close> is a sequence of Unicode code points, so a string is a list of
  natural numbers. \<open>str\<close> embeds an ASCII literal; the quote characters and the backslash
  are written as code points (\<open>SQ\<close>, \<open>DQ\<close>, \<open>BSL\<close>). \<open>py_isspace\<close> is the set of characters
  that \<^verbatim>\<open>str.strip()\<close>, \<^verbatim>\<open>str.isspace()\<close> and the regular expression class
  \<^verbatim>\<open>\s\<close> treat as white space.
\<close>

type_synonym ustr = "nat list"

definition str :: "string \<Rightarrow> ustr" where
  "str s = map of_char s"

abbreviation SQ :: nat where "SQ \<equiv> 39"
abbreviation DQ :: nat where "DQ \<equiv> 34"
abbreviation BSL :: nat where "BSL \<equiv> 92"

definition py_isspace :: "nat \<Rightarrow> bool" where
  "py_isspace c \<longleftrightarrow>
     (9 \<le> c \<and> c \<le> 13) \<or> (28 \<le> c \<and> c \<le> 32) \<or> c = 133 \<or> c = 160 \<or> c = 5760 \<or>
     (8192 \<le> c \<and> c \<le> 8202) \<or> c = 8232 \<or> c = 8233 \<or> c = 8239 \<or> c = 8287 \<or> c = 12288"

definition lstrip :: "ustr \<Rightarrow> ustr" where
  "lstrip s = dropWhile py_isspace s"

definition rstrip :: "ustr \<Rightarrow> ustr" where
  "rstrip s = rev (dropWhile py_isspace (rev s))"

definition strip :: "ustr \<Rightarrow> ustr" where
  "strip s = rstrip (lstrip s)"

definition startswith :: "ustr \<Rightarrow> ustr \<Rightarrow> bool" where
  "startswith s p \<longleftrightarrow> prefix p s"

section \<open>Tab sanitizer\<close>

text \<open>
  \<^verbatim>\<open>ScriptRunner._sanitize_tabs\<close>: the outer loop over the index \<open>i\<close> and the inner loop
  that moves \<open>j\<close> over the blank lines after line \<open>i\<close>. The two literals compared with the
  stripped line are the text \<^verbatim>\<open>insert_text('\t')\<close> with a backslash and the letter t.
\<close>

function skip_blank :: "ustr list \<Rightarrow> nat \<Rightarrow> nat" where
  "skip_blank lines j =
     (if j < length lines \<and> strip (lines ! j) = [] then skip_blank lines (j + 1) else j)"
  by pat_completeness auto
termination
  by (relation "measure (\<lambda>(lines, j). length lines - j)") auto

declare skip_blank.simps [simp del]

definition tab_line_sq :: ustr where
  "tab_line_sq = str ''insert_text('' @ [SQ, BSL, 116, SQ] @ str '')''"

definition tab_line_dq :: ustr where
  "tab_line_dq = str ''insert_text('' @ [DQ, BSL, 116, DQ] @ str '')''"

definition space_line :: ustr where
  "space_line = str ''insert_text('' @ [SQ, 32, SQ] @ str '')''"

definition is_tab_line :: "ustr \<Rightarrow> bool" where
  "is_tab_line line \<longleftrightarrow> strip line = tab_line_sq \<or> strip line = tab_line_dq"

function sanitize_tabs_loop :: "ustr list \<Rightarrow> nat \<Rightarrow> ustr list \<Rightarrow> ustr list" where
  "sanitize_tabs_loop lines i out =
     (if i < length lines then
        (let line = lines ! i in
         if is_tab_line line then
           (let j = skip_blank lines (i + 1) in
            if j < length lines \<and> startswith (lstrip (lines ! j)) (str ''insert_equation('')
            then sanitize_tabs_loop lines (i + 1) (out @ [line])
            else sanitize_tabs_loop lines (i + 1) (out @ [space_line]))
         else sanitize_tabs_loop lines (i + 1) (out @ [line]))
      else out)"
  by pat_completeness auto
termination
  by (relation "measure (\<lambda>(lines, i, out). length lines - i)") auto

declare sanitize_tabs_loop.simps [simp del]

definition sanitize_tabs :: "ustr list \<Rightarrow> ustr list" where
  "sanitize_tabs lines = sanitize_tabs_loop lines 0 []"

text \<open>
  The line that follows position \<open>i\<close> after the blank lines, read off the list itself, and
  the line the sanitizer leaves at position \<open>i\<close>.
\<close>

definition next_nonblank :: "ustr list \<Rightarrow> nat \<Rightarrow> ustr option" where
  "next_nonblank lines i =
     (case dropWhile (\<lambda>l. strip l = []) (drop (Suc i) lines) of
        [] \<Rightarrow> None | l # _ \<Rightarrow> Some l)"

definition tab_result :: "ustr list \<Rightarrow> nat \<Rightarrow> ustr" where
  "tab_result lines i =
     (if is_tab_line (lines ! i) then
        (case next_nonblank lines i of
           Some l \<Rightarrow> if startswith (lstrip l) (str ''insert_equation('') then lines ! i else space_line
         | None \<Rightarrow> space_line)
      else lines ! i)"


definition next_is_insert_equation :: "ustr list \<Rightarrow> nat \<Rightarrow> bool" where
  "next_is_insert_equation lines i \<longleftrightarrow>
     (case next_nonblank lines i of
        Some l \<Rightarrow> startswith (lstrip l) (str ''insert_equation('') | None \<Rightarrow> False)"

text \<open>
  The reading of the specification: an equation insertion is a call of
  \<^verbatim>\<open>insert_equation\<close> or of \<^verbatim>\<open>insert_latex_equation\<close>.
\<close>

definition spec_next_is_equation_insertion :: "ustr list \<Rightarrow> nat \<Rightarrow> bool" where
  "spec_next_is_equation_insertion lines i \<longleftrightarrow>
     (case next_nonblank lines i of
        Some l \<Rightarrow> startswith (lstrip l) (str ''insert_equation('') \<or>
                  startswith (lstrip l) (str ''insert_latex_equation('')
      | None \<Rightarrow> False)"

subsection \<open>The sanitizer position by position\<close>

lemma skip_blank_spec:
  "j \<le> length lines \<Longrightarrow>
   (case dropWhile (\<lambda>l. strip l = []) (drop j lines) of [] \<Rightarrow> skip_blank lines j = length lines
     | l # _ \<Rightarrow> skip_blank lines j < length lines \<and> lines ! (skip_blank lines j) = l)"
proof (induction lines j rule: skip_blank.induct)
  case (1 lines j)
  show ?case
  proof (cases "j < length lines")
    case False
    with "1.prems" show ?thesis by (simp add: skip_blank.simps)
  next
    case True
    then have d: "drop j lines = lines ! j # drop (Suc j) lines"
      by (simp add: Cons_nth_drop_Suc)
    show ?thesis
    proof (cases "strip (lines ! j) = []")
      case True
      have eq: "skip_blank lines j = skip_blank lines (j + 1)"
        using True \<open>j < length lines\<close> by (subst skip_blank.simps) simp
      have dw: "dropWhile (\<lambda>l. strip l = []) (drop j lines) =
                dropWhile (\<lambda>l. strip l = []) (drop (j + 1) lines)"
        using True by (simp add: d)
      from \<open>j < length lines\<close> True "1.IH" show ?thesis
        unfolding dw eq by simp
    next
      case False
      with \<open>j < length lines\<close> show ?thesis
        by (simp add: skip_blank.simps d)
    qed
  qed
qed

lemma sanitize_tabs_loop_spec:
  "i \<le> length lines \<Longrightarrow>
   sanitize_tabs_loop lines i out = out @ map (tab_result lines) [i..<length lines]"
proof (induction lines i out rule: sanitize_tabs_loop.induct)
  case (1 lines i out)
  show ?case
  proof (cases "i < length lines")
    case False
    with "1.prems" show ?thesis by (simp add: sanitize_tabs_loop.simps)
  next
    case True
    have up: "[i..<length lines] = i # [Suc i..<length lines]"
      using True by (simp add: upt_conv_Cons)
    have sb: "(case next_nonblank lines i of None \<Rightarrow> \<not> skip_blank lines (Suc i) < length lines
        | Some l \<Rightarrow> skip_blank lines (Suc i) < length lines \<and> lines ! skip_blank lines (Suc i) = l)"
    proof (cases "dropWhile (\<lambda>l. strip l = []) (drop (Suc i) lines)")
      case Nil
      from skip_blank_spec [of "Suc i" lines] True show ?thesis
        unfolding next_nonblank_def Nil by simp
    next
      case (Cons l ls)
      from skip_blank_spec [of "Suc i" lines] True show ?thesis
        unfolding next_nonblank_def Cons by simp
    qed
    show ?thesis
      using True "1.IH" sb
      by (subst sanitize_tabs_loop.simps)
         (auto simp: up tab_result_def Let_def split: option.splits)
  qed
qed

lemma sanitize_tabs_nth:
  "length (sanitize_tabs lines) = length lines \<and>
   (\<forall>i < length lines. sanitize_tabs lines ! i = tab_result lines i)"
  by (simp add: sanitize_tabs_def sanitize_tabs_loop_spec)

lemma strip_space_line: "strip space_line = space_line"
  by (simp add: space_line_def str_def strip_def lstrip_def rstrip_def py_isspace_def)

lemma tab_line_not_space_line: "is_tab_line l \<Longrightarrow> l \<noteq> space_line"
proof
  assume t: "is_tab_line l" and e: "l = space_line"
  from t have "space_line = tab_line_sq \<or> space_line = tab_line_dq"
    unfolding is_tab_line_def e strip_space_line .
  then show False
    by (simp add: space_line_def tab_line_sq_def tab_line_dq_def str_def)
qed

text \<open>
  Claim C6, as the code has it. A line that is \<^verbatim>\<open>insert_text('\t')\<close> up to surrounding white
  space stays as it is exactly when the next non-blank line starts, after its leading white
  space, with \<^verbatim>\<open>insert_equation(\<close>; in every other case (no such line, or any other
  line, a call of \<^verbatim>\<open>insert_latex_equation\<close> included) position \<open>i\<close> of the output is
  \<^verbatim>\<open>insert_text(' ')\<close>. The pass keeps the number of lines and every other line.
\<close>

theorem sanitize_tabs_keeps_tab_iff_insert_equation:
  "i < length lines \<Longrightarrow>
   length (sanitize_tabs lines) = length lines \<and>
   (is_tab_line (lines ! i) \<longrightarrow>
      (sanitize_tabs lines ! i = lines ! i \<longleftrightarrow> next_is_insert_equation lines i) \<and>
      (\<not> next_is_insert_equation lines i \<longrightarrow> sanitize_tabs lines ! i = space_line)) \<and>
   (\<not> is_tab_line (lines ! i) \<longrightarrow> sanitize_tabs lines ! i = lines ! i)"
proof -
  assume i: "i < length lines"
  have n: "sanitize_tabs lines ! i = tab_result lines i"
    using i sanitize_tabs_nth by blast
  have len: "length (sanitize_tabs lines) = length lines"
    using sanitize_tabs_nth by blast
  have other: "\<not> is_tab_line (lines ! i) \<longrightarrow> sanitize_tabs lines ! i = lines ! i"
    by (simp add: n tab_result_def)
  have tab: "is_tab_line (lines ! i) \<longrightarrow>
      (sanitize_tabs lines ! i = lines ! i \<longleftrightarrow> next_is_insert_equation lines i) \<and>
      (\<not> next_is_insert_equation lines i \<longrightarrow> sanitize_tabs lines ! i = space_line)"
  proof
    assume t: "is_tab_line (lines ! i)"
    have ne: "space_line \<noteq> lines ! i"
      using tab_line_not_space_line [OF t] by (rule not_sym)
    show "(sanitize_tabs lines ! i = lines ! i \<longleftrightarrow> next_is_insert_equation lines i) \<and>
          (\<not> next_is_insert_equation lines i \<longrightarrow> sanitize_tabs lines ! i = space_line)"
      using t ne by (simp add: n tab_result_def next_is_insert_equation_def split: option.splits)
  qed
  from len tab other show ?thesis by blast
qed

lemma is_tab_line_sq: "is_tab_line tab_line_sq"
  by (simp add: is_tab_line_def tab_line_sq_def str_def strip_def lstrip_def rstrip_def
      py_isspace_def)

lemma next_nonblank_eq_example:
  "next_nonblank [tab_line_sq, [], str ''  insert_equation(x)''] 0 = Some (str ''  insert_equation(x)'')"
  by (simp add: next_nonblank_def strip_def lstrip_def rstrip_def str_def py_isspace_def)

lemma next_nonblank_latex_example:
  "next_nonblank [tab_line_sq, str ''insert_latex_equation(x)''] 0 =
     Some (str ''insert_latex_equation(x)'')"
  by (simp add: next_nonblank_def strip_def lstrip_def rstrip_def str_def py_isspace_def)

theorem sanitize_tabs_keeps_tab_witness:
  "sanitize_tabs [tab_line_sq, [], str ''  insert_equation(x)''] ! 0 = tab_line_sq \<and>
   length (sanitize_tabs [tab_line_sq, [], str ''  insert_equation(x)'']) = 3"
proof -
  let ?ls = "[tab_line_sq, [], str ''  insert_equation(x)'']"
  have i: "(0::nat) < length ?ls" by simp
  have t: "is_tab_line (?ls ! 0)" by (simp add: is_tab_line_sq)
  have e: "next_is_insert_equation ?ls 0"
    by (simp add: next_is_insert_equation_def next_nonblank_eq_example)
       (simp add: startswith_def lstrip_def str_def py_isspace_def)
  from sanitize_tabs_keeps_tab_iff_insert_equation [OF i] t e
  show ?thesis by simp
qed

text \<open>
  Claim C6 as stated fails: after the tab line comes a call of
  \<^verbatim>\<open>insert_latex_equation\<close>, an equation insertion in the words of the specification, and
  the tab line is rewritten to \<^verbatim>\<open>insert_text(' ')\<close> all the same.
\<close>

theorem sanitize_tabs_latex_counterexample:
  "is_tab_line ([tab_line_sq, str ''insert_latex_equation(x)''] ! 0) \<and>
   spec_next_is_equation_insertion [tab_line_sq, str ''insert_latex_equation(x)''] 0 \<and>
   sanitize_tabs [tab_line_sq, str ''insert_latex_equation(x)''] =
     [space_line, str ''insert_latex_equation(x)''] \<and>
   space_line \<noteq> tab_line_sq"
proof -
  let ?ls = "[tab_line_sq, str ''insert_latex_equation(x)'']"
  have a: "is_tab_line (?ls ! 0)" by (simp add: is_tab_line_sq)
  have b: "spec_next_is_equation_insertion ?ls 0"
    by (simp add: spec_next_is_equation_insertion_def next_nonblank_latex_example)
       (simp add: startswith_def lstrip_def str_def py_isspace_def)
  have nb: "\<not> is_tab_line (str ''insert_latex_equation(x)'')"
    by (simp add: is_tab_line_def strip_def lstrip_def rstrip_def tab_line_sq_def
        tab_line_dq_def str_def py_isspace_def)
  have sk: "skip_blank ?ls (Suc 0) = Suc 0"
    by (subst skip_blank.simps)
       (simp add: strip_def lstrip_def rstrip_def str_def py_isspace_def)
  have ns: "\<not> startswith (lstrip (str ''insert_latex_equation(x)'')) (str ''insert_equation('')"
    by (simp add: startswith_def lstrip_def str_def py_isspace_def)
  have c: "sanitize_tabs ?ls = [space_line, str ''insert_latex_equation(x)'']"
    unfolding sanitize_tabs_def
    by (subst sanitize_tabs_loop.simps, simp add: is_tab_line_sq sk ns,
        subst sanitize_tabs_loop.simps, simp add: nb,
        subst sanitize_tabs_loop.simps, simp)
  have d: "space_line \<noteq> tab_line_sq"
    by (simp add: space_line_def tab_line_sq_def str_def)
  from a b c d show ?thesis by blast
qed

section \<open>Document composer\<close>

text \<open>
  \<^verbatim>\<open>HwpController\<close>: the layout flags of the class as a record, together with the
  document sink it drives. The sink is the automation object \<^verbatim>\<open>self._hwp\<close>: \<open>hwp\<close> says
  whether it is connected, \<open>sink_log\<close> lists the calls that succeeded, in order, and
  \<open>sink_fails\<close> says, from the calls so far, whether a call raises. An operation returns the
  exception it raised, if any, with the state at that moment.
  \<^verbatim>\<open>insert_equation_control\<close> is not part of the repository sources and is one sink call.
  Font sizes are passed as the \<^verbatim>\<open>Height\<close> value written to the sink (points times 100).
\<close>

datatype align = ARight | AJustify | ALeft

datatype sink_call =
    ActInsertText ustr
  | KeyIndicator nat
  | HActionRun string
  | HwpRun string
  | CharShapeHeight int
  | TableCreate int int
  | TableCreateSet int int
  | EquationControl ustr

datatype err_msg =
    MsgNotConnected | MsgTableDims | MsgTableInsert | MsgParagraph | MsgFontSize | MsgBoxExit

datatype exn = SinkError sink_call | HwpControllerError err_msg "exn option"

record composer =
  hwp :: bool
  sink_log :: "sink_call list"
  sink_fails :: "sink_call list \<Rightarrow> sink_call \<Rightarrow> bool"
  has_HTableCreation :: bool
  in_condition_box :: bool
  box_line_start :: bool
  line_start :: bool
  first_line_written :: bool
  align_right_next_line :: bool
  line_right_aligned :: bool
  align_justify_next_line :: bool
  line_justify_aligned :: bool
  last_was_equation :: bool
  underline_active :: bool
  bold_active :: bool

type_synonym 'a outcome = "exn option \<times> 'a"

definition and_then :: "composer outcome \<Rightarrow> (composer \<Rightarrow> composer outcome) \<Rightarrow> composer outcome" where
  "and_then r f = (case r of (None, s) \<Rightarrow> f s | (Some e, s) \<Rightarrow> (Some e, s))"

definition except_pass :: "composer outcome \<Rightarrow> composer" where
  "except_pass r = snd r"

definition except_raise :: "err_msg \<Rightarrow> composer outcome \<Rightarrow> composer outcome" where
  "except_raise m r =
     (case r of (None, s) \<Rightarrow> (None, s) | (Some e, s) \<Rightarrow> (Some (HwpControllerError m (Some e)), s))"

definition sink :: "sink_call \<Rightarrow> composer \<Rightarrow> composer outcome" where
  "sink c s =
     (if sink_fails s (sink_log s) c then (Some (SinkError c), s)
      else (None, s\<lparr>sink_log := sink_log s @ [c]\<rparr>))"

definition ensure_connected :: "composer \<Rightarrow> composer outcome" where
  "ensure_connected s =
     (if hwp s then (None, s) else (Some (HwpControllerError MsgNotConnected None), s))"

fun key_indicators :: "ustr \<Rightarrow> composer \<Rightarrow> composer outcome" where
  "key_indicators [] s = (None, s)"
| "key_indicators (c # cs) s = and_then (sink (KeyIndicator c) s) (key_indicators cs)"

definition insert_text_raw :: "ustr \<Rightarrow> composer \<Rightarrow> composer outcome" where
  "insert_text_raw text s =
     (if text = [] then (None, s)
      else and_then (ensure_connected s) (\<lambda>s.
        case sink (ActInsertText text) s of
          (None, s') \<Rightarrow> (None, s')
        | (Some e, s') \<Rightarrow> key_indicators text s'))"

definition align_action :: "align \<Rightarrow> string" where
  "align_action a =
     (case a of ARight \<Rightarrow> ''ParagraphShapeAlignRight''
      | AJustify \<Rightarrow> ''ParagraphShapeAlignJustify''
      | ALeft \<Rightarrow> ''ParagraphShapeAlignLeft'')"

definition run_action_or_run :: "string \<Rightarrow> composer \<Rightarrow> composer" where
  "run_action_or_run name s =
     except_pass
       (case and_then (ensure_connected s) (sink (HActionRun name)) of
          (None, s') \<Rightarrow> (None, s')
        | (Some e, s') \<Rightarrow> and_then (ensure_connected s') (sink (HwpRun name)))"

definition set_paragraph_align :: "align \<Rightarrow> composer \<Rightarrow> composer" where
  "set_paragraph_align a s = run_action_or_run (align_action a) s"

definition set_align_right_next_line :: "composer \<Rightarrow> composer outcome" where
  "set_align_right_next_line s = (None, s\<lparr>align_right_next_line := True\<rparr>)"

definition set_align_justify_next_line :: "composer \<Rightarrow> composer outcome" where
  "set_align_justify_next_line s = (None, s\<lparr>align_justify_next_line := True\<rparr>)"

definition maybe_insert_line_indent :: "nat \<Rightarrow> composer \<Rightarrow> composer outcome" where
  "maybe_insert_line_indent spaces s =
     (if in_condition_box s then (None, s)
      else if line_start s \<and> first_line_written s then
        and_then (insert_text_raw (replicate spaces 32) s) (\<lambda>s. (None, s\<lparr>line_start := False\<rparr>))
      else (None, s))"

definition insert_paragraph :: "composer \<Rightarrow> composer outcome" where
  "insert_paragraph s =
     and_then (ensure_connected s) (\<lambda>s.
       except_raise MsgParagraph
         (and_then (sink (HActionRun ''BreakPara'') s) (\<lambda>s.
            let s = (if in_condition_box s then s\<lparr>box_line_start := True\<rparr> else s);
                s = s\<lparr>line_start := True\<rparr>;
                s = (if line_right_aligned s
                     then (set_paragraph_align ALeft s)\<lparr>line_right_aligned := False\<rparr> else s);
                s = (if line_justify_aligned s
                     then (set_paragraph_align ALeft s)\<lparr>line_justify_aligned := False\<rparr> else s)
            in (None, s))))"

text \<open>
  The block \<^verbatim>\<open>Apply one-line alignment BEFORE indentation logic\<close>, which
  \<^verbatim>\<open>insert_text\<close> and \<^verbatim>\<open>insert_equation\<close> both contain; it returns
  \<^verbatim>\<open>skip_auto_indent_right\<close>.
\<close>

definition apply_next_line_align :: "composer \<Rightarrow> bool \<times> composer" where
  "apply_next_line_align s =
     (let (skip_auto_indent_right, s) =
            (if line_start s \<and> align_right_next_line s
             then (True, (set_paragraph_align ARight s)
                           \<lparr>align_right_next_line := False, line_right_aligned := True\<rparr>)
             else (False, s));
          s = (if line_start s \<and> align_justify_next_line s
               then (set_paragraph_align AJustify s)
                      \<lparr>align_justify_next_line := False, line_justify_aligned := True\<rparr>
               else s)
      in (skip_auto_indent_right, s))"

text \<open>
  \<^verbatim>\<open>insert_text\<close>. The regular expression test on numbered lines is left out: both of
  its branches are \<^verbatim>\<open>pass\<close>.
\<close>

definition insert_text :: "ustr \<Rightarrow> composer \<Rightarrow> composer outcome" where
  "insert_text text s =
     (if text = [] then (None, s)
      else
        let text = (if startswith text [BSL, 116] \<or> startswith text [47, 116]
                    then 9 # drop 2 text else text)
        in and_then
             (if line_start s \<and> startswith text [9] \<and> first_line_written s
              then insert_paragraph s else (None, s))
             (\<lambda>s.
                let (skip_auto_indent_right, s) = apply_next_line_align s;
                    s = (if line_start s \<and> (startswith text [9] \<or> startswith text [32])
                         then s\<lparr>line_start := False\<rparr> else s);
                    text = (if skip_auto_indent_right
                            then dropWhile (\<lambda>c. c = 32 \<or> c = 9) text else text);
                    text = (if last_was_equation s \<and> startswith text [32] then drop 1 text else text);
                    (text, s) = (if in_condition_box s \<and> box_line_start s \<and> \<not> startswith text [32]
                                 then (32 # text, s\<lparr>box_line_start := False\<rparr>) else (text, s))
                in and_then (insert_text_raw text s) (\<lambda>s.
                     (None, s\<lparr>line_start := False, last_was_equation := False,
                              first_line_written := True\<rparr>))))"

definition set_font_size_pt :: "int \<Rightarrow> composer \<Rightarrow> composer outcome" where
  "set_font_size_pt height s =
     and_then (ensure_connected s) (\<lambda>s. except_raise MsgFontSize (sink (CharShapeHeight height) s))"

definition insert_equation :: "ustr \<Rightarrow> composer \<Rightarrow> composer outcome" where
  "insert_equation hwpeqn s =
     (let content = hwpeqn
      in and_then
           (if line_start s \<and> startswith content [9] then insert_text [9] s else (None, s))
           (\<lambda>s'.
              let content = (if line_start s \<and> startswith content [9]
                             then dropWhile (\<lambda>c. c = 9) content else content);
                  (skip_auto_indent_right, s') = apply_next_line_align s'
              in and_then
                   (if \<not> skip_auto_indent_right then maybe_insert_line_indent 2 s' else (None, s'))
                   (\<lambda>s'. and_then (ensure_connected s') (\<lambda>s'.
                      and_then (sink (EquationControl content) s') (\<lambda>s'.
                        (None, s'\<lparr>line_start := False, last_was_equation := True,
                                  first_line_written := True\<rparr>))))))"

definition leave_box :: "composer \<Rightarrow> composer" where
  "leave_box s = s\<lparr>in_condition_box := False, box_line_start := False\<rparr>"

definition exit_box :: "composer \<Rightarrow> composer outcome" where
  "exit_box s =
     and_then (ensure_connected s) (\<lambda>s.
       except_raise MsgBoxExit
         (let s = (if in_condition_box s
                   then except_pass
                          (and_then (set_font_size_pt 300 s) (\<lambda>s.
                           and_then (insert_text [32] s) (\<lambda>s.
                           and_then (insert_paragraph s) (set_font_size_pt 800))))
                   else s)
          in case and_then (sink (HActionRun ''TableLowerCell'') s) (sink (HActionRun ''MoveDown'')) of
               (None, s) \<Rightarrow> (None, leave_box s)
             | (Some e, s) \<Rightarrow>
                 (case and_then (sink (HActionRun ''CloseEx'') s) (sink (HActionRun ''MoveDown'')) of
                    (None, s) \<Rightarrow> (None, leave_box s)
                  | (Some e, s) \<Rightarrow> (Some (HwpControllerError MsgBoxExit (Some e)), leave_box s))))"


text \<open>
  \<^verbatim>\<open>insert_table\<close>. \<open>cell_data\<close> is a list of rows or a flat list of strings, which the
  code cuts into rows of \<open>cols\<close> cells.
\<close>

datatype cells = Flat "ustr list" | Grid "ustr list list"

function chunks :: "nat \<Rightarrow> 'a list \<Rightarrow> 'a list list" where
  "chunks n xs = (if n = 0 \<or> xs = [] then [] else take n xs # chunks n (drop n xs))"
  by pat_completeness auto
termination
  by (relation "measure (\<lambda>(n, xs). length xs)") auto

declare chunks.simps [simp del]

definition table_run :: "string \<Rightarrow> composer \<Rightarrow> composer" where
  "table_run action_name s =
     except_pass
       (case sink (HActionRun action_name) s of
          (None, s') \<Rightarrow> (None, s')
        | (Some e, s') \<Rightarrow> sink (HwpRun action_name) s')"

definition apply_table_font :: "composer \<Rightarrow> composer" where
  "apply_table_font s = except_pass (sink (CharShapeHeight 800) s)"

fun table_left_cells :: "nat \<Rightarrow> composer \<Rightarrow> composer" where
  "table_left_cells 0 s = s"
| "table_left_cells (Suc n) s = table_left_cells n (table_run ''TableLeftCell'' s)"

fun table_cols :: "int \<Rightarrow> bool \<Rightarrow> nat \<Rightarrow> ustr list \<Rightarrow> composer \<Rightarrow> composer outcome" where
  "table_cols cols align_center c [] s = (None, s)"
| "table_cols cols align_center c (v # vs) s =
     (let s = apply_table_font s;
          s = (if align_center then table_run ''ParagraphShapeAlignCenter'' s else s)
      in and_then
           (if v \<noteq> [] then
              (if startswith v (str ''EQ:'') then insert_equation (strip (drop 3 v)) s
               else insert_text v s)
            else (None, s))
           (\<lambda>s. table_cols cols align_center (c + 1) vs
                  (if int c < cols - 1 then table_run ''TableRightCell'' s else s)))"

fun table_rows :: "int \<Rightarrow> int \<Rightarrow> bool \<Rightarrow> nat \<Rightarrow> ustr list list \<Rightarrow> composer \<Rightarrow> composer outcome" where
  "table_rows rows cols align_center r [] s = (None, s)"
| "table_rows rows cols align_center r (row # rest) s =
     and_then (table_cols cols align_center 0 (take (nat cols) row) s)
       (\<lambda>s. table_rows rows cols align_center (r + 1) rest
              (if int r < rows - 1
               then table_left_cells (nat (cols - 1)) (table_run ''TableLowerCell'' s) else s))"

definition table_grid :: "int \<Rightarrow> cells option \<Rightarrow> ustr list list" where
  "table_grid cols cell_data =
     (case cell_data of None \<Rightarrow> [] | Some (Grid g) \<Rightarrow> g | Some (Flat xs) \<Rightarrow> chunks (nat cols) xs)"

definition table_body :: "int \<Rightarrow> int \<Rightarrow> cells option \<Rightarrow> bool \<Rightarrow> composer \<Rightarrow> composer outcome" where
  "table_body rows cols cell_data align_center s =
     and_then (maybe_insert_line_indent 1 s) (\<lambda>s.
     and_then (sink (if has_HTableCreation s then TableCreate rows cols
                     else TableCreateSet rows cols) s) (\<lambda>s.
       table_rows rows cols align_center 0 (take (nat rows) (table_grid cols cell_data))
         (s\<lparr>line_start := False, first_line_written := True\<rparr>)))"

definition table_finally :: "bool \<Rightarrow> composer outcome \<Rightarrow> composer outcome" where
  "table_finally exit_after r =
     (if exit_after
      then (fst r, (set_paragraph_align ALeft (except_pass (exit_box (snd r))))\<lparr>line_start := True\<rparr>)
      else r)"

definition insert_table :: "int \<Rightarrow> int \<Rightarrow> cells option \<Rightarrow> bool \<Rightarrow> bool \<Rightarrow> composer \<Rightarrow> composer outcome" where
  "insert_table rows cols cell_data align_center exit_after s =
     (if rows \<le> 0 \<or> cols \<le> 0 then (Some (HwpControllerError MsgTableDims None), s)
      else and_then (ensure_connected s) (\<lambda>s.
             table_finally exit_after
               (except_raise MsgTableInsert (table_body rows cols cell_data align_center s))))"

subsection \<open>The dimension guard of the table\<close>

lemma insert_table_error_cases:
  "0 < rows \<Longrightarrow> 0 < cols \<Longrightarrow>
   fst (insert_table rows cols cell_data align_center exit_after s) = None \<or>
   fst (insert_table rows cols cell_data align_center exit_after s) =
     Some (HwpControllerError MsgNotConnected None) \<or>
   (\<exists>e. fst (insert_table rows cols cell_data align_center exit_after s) =
     Some (HwpControllerError MsgTableInsert (Some e)))"
  by (cases "table_body rows cols cell_data align_center s")
     (auto simp: insert_table_def and_then_def ensure_connected_def table_finally_def
       except_raise_def split: option.splits prod.splits)

text \<open>
  Claim C10. With \<open>rows \<le> 0\<close> or \<open>cols \<le> 0\<close>, \<^verbatim>\<open>insert_table\<close> raises the
  \<^verbatim>\<open>HwpControllerError\<close> on the table dimensions and returns the composer, its sink log
  included, as it was. With \<open>rows \<ge> 1\<close> and \<open>cols \<ge> 1\<close> that error is not raised, whatever
  the sink does.
\<close>

theorem insert_table_rejects_nonpositive_dimensions:
  "(rows \<le> 0 \<or> cols \<le> 0 \<longrightarrow>
      insert_table rows cols cell_data align_center exit_after s =
        (Some (HwpControllerError MsgTableDims None), s)) \<and>
   (1 \<le> rows \<and> 1 \<le> cols \<longrightarrow>
      fst (insert_table rows cols cell_data align_center exit_after s) \<noteq>
        Some (HwpControllerError MsgTableDims None))"
proof (intro conjI impI)
  assume "rows \<le> 0 \<or> cols \<le> 0"
  then show "insert_table rows cols cell_data align_center exit_after s =
        (Some (HwpControllerError MsgTableDims None), s)"
    by (simp add: insert_table_def)
next
  assume "1 \<le> rows \<and> 1 \<le> cols"
  then have "0 < rows" "0 < cols" by simp_all
  from insert_table_error_cases [OF this, of cell_data align_center exit_after s]
  show "fst (insert_table rows cols cell_data align_center exit_after s) \<noteq>
        Some (HwpControllerError MsgTableDims None)"
    by auto
qed

definition fresh_composer :: composer where
  "fresh_composer =
     \<lparr>hwp = True, sink_log = [], sink_fails = (\<lambda>_ _. False), has_HTableCreation = True,
      in_condition_box = False, box_line_start = False, line_start = True,
      first_line_written = False, align_right_next_line = False, line_right_aligned = False,
      align_justify_next_line = False, line_justify_aligned = False, last_was_equation = False,
      underline_active = False, bold_active = False\<rparr>"


theorem insert_table_guard_witness:
  "insert_table 0 2 None False True fresh_composer =
     (Some (HwpControllerError MsgTableDims None), fresh_composer) \<and>
   fst (insert_table 1 1 None False True fresh_composer) \<noteq>
     Some (HwpControllerError MsgTableDims None)"
  using insert_table_rejects_nonpositive_dimensions [of 0 2 None False True fresh_composer]
    insert_table_rejects_nonpositive_dimensions [of 1 1 None False True fresh_composer]
  by simp

subsection \<open>The steps of a text insertion\<close>

text \<open>
  A connected sink none of whose calls raises. \<open>emitted_text\<close> is the text handed to the sink:
  the escaped tab is made a tab, a right-aligned line loses its leading blanks and tabs, then
  one leading space is dropped after an equation, and only then the box prefix is decided.
  \<open>insert_text_trace\<close> is the sequence of sink calls of one insertion.
\<close>

definition reliable :: "composer \<Rightarrow> bool" where
  "reliable s \<longleftrightarrow> hwp s \<and> (\<forall>h c. \<not> sink_fails s h c)"

definition emitted_text :: "composer \<Rightarrow> ustr \<Rightarrow> ustr" where
  "emitted_text s text =
     (let text1 = (if startswith text [BSL, 116] \<or> startswith text [47, 116]
                   then 9 # drop 2 text else text);
          break_first = (line_start s \<and> startswith text1 [9] \<and> first_line_written s);
          text2 = (if line_start s \<and> align_right_next_line s
                   then dropWhile (\<lambda>c. c = 32 \<or> c = 9) text1 else text1);
          text3 = (if last_was_equation s \<and> startswith text2 [32] then drop 1 text2 else text2);
          at_box_line_start = (in_condition_box s \<and> (box_line_start s \<or> break_first))
      in if at_box_line_start \<and> \<not> startswith text3 [32] then 32 # text3 else text3)"

definition insert_text_trace :: "composer \<Rightarrow> ustr \<Rightarrow> sink_call list" where
  "insert_text_trace s text =
     (let text1 = (if startswith text [BSL, 116] \<or> startswith text [47, 116]
                   then 9 # drop 2 text else text);
          break_first = (line_start s \<and> startswith text1 [9] \<and> first_line_written s)
      in (if break_first
          then [HActionRun ''BreakPara''] @
               (if line_right_aligned s then [HActionRun ''ParagraphShapeAlignLeft''] else []) @
               (if line_justify_aligned s then [HActionRun ''ParagraphShapeAlignLeft''] else [])
          else []) @
         (if line_start s \<and> align_right_next_line s
          then [HActionRun ''ParagraphShapeAlignRight''] else []) @
         (if line_start s \<and> align_justify_next_line s
          then [HActionRun ''ParagraphShapeAlignJustify''] else []) @
         (if emitted_text s text = [] then [] else [ActInsertText (emitted_text s text)]))"

lemma sink_reliable:
  "reliable s \<Longrightarrow> sink c s = (None, s\<lparr>sink_log := sink_log s @ [c]\<rparr>)"
  by (simp add: reliable_def sink_def)

lemma set_paragraph_align_reliable:
  "reliable s \<Longrightarrow>
   set_paragraph_align a s = s\<lparr>sink_log := sink_log s @ [HActionRun (align_action a)]\<rparr>"
  by (simp add: set_paragraph_align_def run_action_or_run_def ensure_connected_def and_then_def
      sink_reliable except_pass_def)
     (simp add: reliable_def)

lemma insert_text_raw_reliable:
  "reliable s \<Longrightarrow>
   insert_text_raw text s =
     (None, if text = [] then s else s\<lparr>sink_log := sink_log s @ [ActInsertText text]\<rparr>)"
  by (simp add: insert_text_raw_def ensure_connected_def and_then_def sink_reliable)
     (simp add: reliable_def)

lemma reliable_update [simp]:
  "reliable (s\<lparr>sink_log := l\<rparr>) = reliable s"
  "reliable (s\<lparr>line_start := b\<rparr>) = reliable s"
  "reliable (s\<lparr>box_line_start := b\<rparr>) = reliable s"
  "reliable (s\<lparr>line_right_aligned := b\<rparr>) = reliable s"
  "reliable (s\<lparr>line_justify_aligned := b\<rparr>) = reliable s"
  "reliable (s\<lparr>align_right_next_line := b\<rparr>) = reliable s"
  "reliable (s\<lparr>align_justify_next_line := b\<rparr>) = reliable s"
  by (simp_all add: reliable_def)

lemma insert_paragraph_reliable:
  "reliable s \<Longrightarrow>
   insert_paragraph s =
     (None, s\<lparr>sink_log := sink_log s @ [HActionRun ''BreakPara''] @
                 (if line_right_aligned s then [HActionRun ''ParagraphShapeAlignLeft''] else []) @
                 (if line_justify_aligned s then [HActionRun ''ParagraphShapeAlignLeft''] else []),
              box_line_start := (in_condition_box s \<or> box_line_start s),
              line_start := True, line_right_aligned := False, line_justify_aligned := False\<rparr>)"
  apply (simp add: insert_paragraph_def ensure_connected_def and_then_def sink_reliable
      except_raise_def Let_def set_paragraph_align_reliable align_action_def)
  apply (simp add: reliable_def)
  done


definition insert_text_rest :: "ustr \<Rightarrow> composer \<Rightarrow> composer outcome" where
  "insert_text_rest text s =
     (let (skip_auto_indent_right, s) = apply_next_line_align s;
          s = (if line_start s \<and> (startswith text [9] \<or> startswith text [32])
               then s\<lparr>line_start := False\<rparr> else s);
          text = (if skip_auto_indent_right
                  then dropWhile (\<lambda>c. c = 32 \<or> c = 9) text else text);
          text = (if last_was_equation s \<and> startswith text [32] then drop 1 text else text);
          (text, s) = (if in_condition_box s \<and> box_line_start s \<and> \<not> startswith text [32]
                       then (32 # text, s\<lparr>box_line_start := False\<rparr>) else (text, s))
      in and_then (insert_text_raw text s) (\<lambda>s.
           (None, s\<lparr>line_start := False, last_was_equation := False,
                    first_line_written := True\<rparr>)))"

lemma insert_text_unfold:
  "insert_text text s =
     (if text = [] then (None, s)
      else
        let text = (if startswith text [BSL, 116] \<or> startswith text [47, 116]
                    then 9 # drop 2 text else text)
        in and_then
             (if line_start s \<and> startswith text [9] \<and> first_line_written s
              then insert_paragraph s else (None, s))
             (insert_text_rest text))"
  unfolding insert_text_def insert_text_rest_def ..

definition rest_text :: "composer \<Rightarrow> ustr \<Rightarrow> ustr" where
  "rest_text s text1 =
     (let text2 = (if line_start s \<and> align_right_next_line s
                   then dropWhile (\<lambda>c. c = 32 \<or> c = 9) text1 else text1);
          text3 = (if last_was_equation s \<and> startswith text2 [32] then drop 1 text2 else text2)
      in if in_condition_box s \<and> box_line_start s \<and> \<not> startswith text3 [32]
         then 32 # text3 else text3)"

lemma apply_next_line_align_reliable:
  "reliable s \<Longrightarrow>
   apply_next_line_align s =
     (line_start s \<and> align_right_next_line s,
      s\<lparr>sink_log := sink_log s @
           (if line_start s \<and> align_right_next_line s
            then [HActionRun ''ParagraphShapeAlignRight''] else []) @
           (if line_start s \<and> align_justify_next_line s
            then [HActionRun ''ParagraphShapeAlignJustify''] else []),
         align_right_next_line := align_right_next_line s \<and> \<not> line_start s,
         line_right_aligned := line_right_aligned s \<or> (line_start s \<and> align_right_next_line s),
         align_justify_next_line := align_justify_next_line s \<and> \<not> line_start s,
         line_justify_aligned :=
           line_justify_aligned s \<or> (line_start s \<and> align_justify_next_line s)\<rparr>)"
  by (cases "line_start s"; cases "align_right_next_line s"; cases "align_justify_next_line s";
      simp add: apply_next_line_align_def set_paragraph_align_reliable align_action_def)

lemma insert_text_rest_reliable:
  assumes "reliable s"
  shows "fst (insert_text_rest text s) = None \<and>
         sink_log (snd (insert_text_rest text s)) =
         sink_log s @
         (if line_start s \<and> align_right_next_line s
          then [HActionRun ''ParagraphShapeAlignRight''] else []) @
         (if line_start s \<and> align_justify_next_line s
          then [HActionRun ''ParagraphShapeAlignJustify''] else []) @
         (if rest_text s text = [] then [] else [ActInsertText (rest_text s text)]) \<and>
         \<not> line_start (snd (insert_text_rest text s)) \<and>
         \<not> last_was_equation (snd (insert_text_rest text s)) \<and>
         first_line_written (snd (insert_text_rest text s))"
proof -
  obtain sk s1 where a: "apply_next_line_align s = (sk, s1)"
    by (cases "apply_next_line_align s")
  from a assms have sk: "sk = (line_start s \<and> align_right_next_line s)"
    and r1: "reliable s1"
    and l1: "sink_log s1 = sink_log s @
           (if line_start s \<and> align_right_next_line s
            then [HActionRun ''ParagraphShapeAlignRight''] else []) @
           (if line_start s \<and> align_justify_next_line s
            then [HActionRun ''ParagraphShapeAlignJustify''] else [])"
    and f1: "last_was_equation s1 = last_was_equation s"
      "in_condition_box s1 = in_condition_box s" "box_line_start s1 = box_line_start s"
    by (auto simp: apply_next_line_align_reliable)
  define s2 where "s2 = (if line_start s1 \<and> (startswith text [9] \<or> startswith text [32])
               then s1\<lparr>line_start := False\<rparr> else s1)"
  have r2: "reliable s2" and l2: "sink_log s2 = sink_log s1"
    and f2: "last_was_equation s2 = last_was_equation s"
      "in_condition_box s2 = in_condition_box s" "box_line_start s2 = box_line_start s"
    using r1 f1 by (simp_all add: s2_def)
  define t2 where "t2 = (if sk then dropWhile (\<lambda>c. c = 32 \<or> c = 9) text else text)"
  define t3 where "t3 = (if last_was_equation s2 \<and> startswith t2 [32] then drop 1 t2 else t2)"
  define b where "b = (in_condition_box s2 \<and> box_line_start s2 \<and> \<not> startswith t3 [32])"
  define t4 where "t4 = (if b then 32 # t3 else t3)"
  define s3 where "s3 = (if b then s2\<lparr>box_line_start := False\<rparr> else s2)"
  have r3: "reliable s3" and l3: "sink_log s3 = sink_log s1"
    using r2 l2 by (simp_all add: s3_def)
  have t4: "t4 = rest_text s text"
    by (simp add: t4_def b_def t3_def t2_def sk f2 rest_text_def Let_def)
  have e: "insert_text_rest text s =
        and_then (insert_text_raw t4 s3) (\<lambda>s.
           (None, s\<lparr>line_start := False, last_was_equation := False,
                    first_line_written := True\<rparr>))"
    unfolding insert_text_rest_def a Let_def prod.case s2_def t2_def t3_def b_def t4_def s3_def
    by (cases "in_condition_box s1"; cases "box_line_start s1"; cases "last_was_equation s1";
        cases "line_start s1"; simp)
  show ?thesis
    unfolding e t4 [symmetric] using l3 l1
    by (simp add: insert_text_raw_reliable [OF r3] and_then_def)
qed


lemma insert_paragraph_reliable_fields:
  assumes "reliable s"
  shows "fst (insert_paragraph s) = None"
    and "reliable (snd (insert_paragraph s))"
    and "sink_log (snd (insert_paragraph s)) =
           sink_log s @ [HActionRun ''BreakPara''] @
           (if line_right_aligned s then [HActionRun ''ParagraphShapeAlignLeft''] else []) @
           (if line_justify_aligned s then [HActionRun ''ParagraphShapeAlignLeft''] else [])"
    and "line_start (snd (insert_paragraph s))"
    and "box_line_start (snd (insert_paragraph s)) = (in_condition_box s \<or> box_line_start s)"
    and "in_condition_box (snd (insert_paragraph s)) = in_condition_box s"
    and "last_was_equation (snd (insert_paragraph s)) = last_was_equation s"
    and "align_right_next_line (snd (insert_paragraph s)) = align_right_next_line s"
    and "align_justify_next_line (snd (insert_paragraph s)) = align_justify_next_line s"
  using assms by (simp_all add: insert_paragraph_reliable)

text \<open>
  Claim C4, as the code has it. On a sink that does not fail, a non-empty text is inserted
  by these sink calls, in this order: a paragraph break when the line starts, the text
  starts with a tab and a first line has been written (with the alignment resets of that
  break); the right and the justify alignment when the line starts and the one-shot flag is
  pending; then the text, from which a right-aligned line's leading blanks were removed,
  then one leading space after an equation was dropped, and to which, last, the box prefix
  was added when the text then does not start with a space.
\<close>

theorem insert_text_steps_in_order:
  "reliable s \<Longrightarrow> text \<noteq> [] \<Longrightarrow>
   fst (insert_text text s) = None \<and>
   sink_log (snd (insert_text text s)) = sink_log s @ insert_text_trace s text \<and>
   \<not> line_start (snd (insert_text text s)) \<and>
   \<not> last_was_equation (snd (insert_text text s)) \<and>
   first_line_written (snd (insert_text text s))"
proof -
  assume r: "reliable s" and ne: "text \<noteq> []"
  define text1 where "text1 = (if startswith text [BSL, 116] \<or> startswith text [47, 116]
                   then 9 # drop 2 text else text)"
  define break_first where
    "break_first = (line_start s \<and> startswith text1 [9] \<and> first_line_written s)"
  show ?thesis
  proof (cases break_first)
    case False
    then have nbf: "(line_start s \<and> startswith text1 [9] \<and> first_line_written s) = False"
      by (simp add: break_first_def)
    have e: "insert_text text s = insert_text_rest text1 s"
      using ne
      by (simp add: insert_text_unfold Let_def text1_def [symmetric] and_then_def nbf)
    have t: "rest_text s text1 = emitted_text s text"
      by (simp add: rest_text_def emitted_text_def Let_def text1_def [symmetric] nbf)
    have tr: "insert_text_trace s text =
         (if line_start s \<and> align_right_next_line s
          then [HActionRun ''ParagraphShapeAlignRight''] else []) @
         (if line_start s \<and> align_justify_next_line s
          then [HActionRun ''ParagraphShapeAlignJustify''] else []) @
         (if emitted_text s text = [] then [] else [ActInsertText (emitted_text s text)])"
      by (simp add: insert_text_trace_def Let_def text1_def [symmetric] nbf)
    show ?thesis
      unfolding e tr t [symmetric] using insert_text_rest_reliable [OF r, of text1] by simp
  next
    case True
    then have bf: "line_start s" "startswith text1 [9]" "first_line_written s"
      by (simp_all add: break_first_def)
    define s1 where "s1 = snd (insert_paragraph s)"
    note p = insert_paragraph_reliable_fields [OF r, folded s1_def]
    have ip: "insert_paragraph s = (None, s1)"
      using p(1) by (simp add: s1_def prod_eq_iff)
    have e: "insert_text text s = insert_text_rest text1 s1"
      using ne bf
      by (simp add: insert_text_unfold Let_def text1_def [symmetric] and_then_def ip)
    have t: "rest_text s1 text1 = emitted_text s text"
      using bf p
      by (simp add: rest_text_def emitted_text_def Let_def text1_def [symmetric])
    have tr: "sink_log s @ insert_text_trace s text =
         sink_log s1 @
         (if line_start s1 \<and> align_right_next_line s1
          then [HActionRun ''ParagraphShapeAlignRight''] else []) @
         (if line_start s1 \<and> align_justify_next_line s1
          then [HActionRun ''ParagraphShapeAlignJustify''] else []) @
         (if emitted_text s text = [] then [] else [ActInsertText (emitted_text s text)])"
      using bf p
      by (simp add: insert_text_trace_def Let_def text1_def [symmetric])
    show ?thesis
      unfolding e tr t [symmetric] using insert_text_rest_reliable [OF p(2), of text1] by simp
  qed
qed

text \<open>
  The composer inside a box, at the start of a box line, right after an equation; and the
  text the specification's order of steps (box prefix, then the drop after an equation)
  would emit.
\<close>

definition boxed_after_equation :: composer where
  "boxed_after_equation =
     fresh_composer\<lparr>in_condition_box := True, box_line_start := True, line_start := False,
                    first_line_written := True, last_was_equation := True\<rparr>"

definition spec_emitted_text :: "composer \<Rightarrow> ustr \<Rightarrow> ustr" where
  "spec_emitted_text s text =
     (let text3 = (if in_condition_box s \<and> box_line_start s \<and> \<not> startswith text [32]
                   then 32 # text else text)
      in if last_was_equation s \<and> startswith text3 [32] then drop 1 text3 else text3)"

lemma reliable_boxed_after_equation: "reliable boxed_after_equation"
  by (simp add: reliable_def boxed_after_equation_def fresh_composer_def)

theorem insert_text_steps_witness:
  "fst (insert_text (str ''y'') boxed_after_equation) = None \<and>
   sink_log (snd (insert_text (str ''y'') boxed_after_equation)) = [ActInsertText (str '' y'')]"
  using insert_text_steps_in_order [OF reliable_boxed_after_equation, of "str ''y''"]
  by (simp add: insert_text_trace_def emitted_text_def boxed_after_equation_def
      fresh_composer_def str_def startswith_def)

text \<open>
  Claim C4 as stated fails: with the box prefix decided before the drop, the text
  of a space and the letter y would reach the sink as the letter y alone; the code drops
  the space first and then prefixes one, and the sink receives the text with its space.
\<close>

theorem insert_text_box_prefix_after_equation_drop_counterexample:
  "sink_log (snd (insert_text (str '' y'') boxed_after_equation)) =
     [ActInsertText (str '' y'')] \<and>
   spec_emitted_text boxed_after_equation (str '' y'') = str ''y''"
  by (simp add: insert_text_def apply_next_line_align_def Let_def insert_text_raw_def
      ensure_connected_def sink_def and_then_def spec_emitted_text_def
      boxed_after_equation_def fresh_composer_def str_def startswith_def)

section \<open>Quote repair of line-wrapped calls\<close>

text \<open>
  \<^verbatim>\<open>ScriptRunner._repair_multiline_calls\<close>. \<open>contains p s\<close> is Python's
  \<^verbatim>\<open>p in s\<close>, \<open>py_join\<close> is \<^verbatim>\<open>sep.join\<close>, \<open>count_unescaped\<close> is the nested
  function of the source. The loop over the lines is a left fold of \<open>repair_step\<close> over the
  state of the three local variables; what follows the loop is \<open>close_joined\<close>. No
  operation of the function can raise, so the model has no error value.
\<close>

fun contains :: "ustr \<Rightarrow> ustr \<Rightarrow> bool" where
  "contains p [] = (p = [])"
| "contains p (c # cs) = (prefix p (c # cs) \<or> contains p cs)"

definition endswith :: "ustr \<Rightarrow> ustr \<Rightarrow> bool" where
  "endswith s p \<longleftrightarrow> suffix p s"

fun py_join :: "ustr \<Rightarrow> ustr list \<Rightarrow> ustr" where
  "py_join sep [] = []"
| "py_join sep [x] = x"
| "py_join sep (x # y # ys) = x @ sep @ py_join sep (y # ys)"

fun count_unescaped_loop :: "nat \<Rightarrow> bool \<Rightarrow> nat \<Rightarrow> ustr \<Rightarrow> nat" where
  "count_unescaped_loop quote escaped count [] = count"
| "count_unescaped_loop quote escaped count (ch # rest) =
     (if escaped then count_unescaped_loop quote False count rest
      else if ch = BSL then count_unescaped_loop quote True count rest
      else if ch = quote then count_unescaped_loop quote False (count + 1) rest
      else count_unescaped_loop quote False count rest)"

definition count_unescaped :: "ustr \<Rightarrow> nat \<Rightarrow> nat" where
  "count_unescaped text quote = count_unescaped_loop quote False 0 text"

definition has_text_or_equation_call :: "ustr \<Rightarrow> bool" where
  "has_text_or_equation_call line \<longleftrightarrow>
     contains (str ''insert_text('') line \<or> contains (str ''insert_equation('') line \<or>
     contains (str ''insert_latex_equation('') line"

record repair_state =
  repaired :: "ustr list"
  buffer :: "ustr list"
  quote_char :: "nat option"

definition join_stripped :: "ustr list \<Rightarrow> ustr" where
  "join_stripped parts = py_join [32] (map strip parts)"

definition repair_step :: "repair_state \<Rightarrow> ustr \<Rightarrow> repair_state" where
  "repair_step st line =
     (case quote_char st of
        None \<Rightarrow>
          if has_text_or_equation_call line \<and> count_unescaped line SQ mod 2 = 1
          then st\<lparr>quote_char := Some SQ, buffer := [line]\<rparr>
          else if has_text_or_equation_call line \<and> count_unescaped line DQ mod 2 = 1
          then st\<lparr>quote_char := Some DQ, buffer := [line]\<rparr>
          else st\<lparr>repaired := repaired st @ [line]\<rparr>
      | Some q \<Rightarrow>
          let buf = buffer st @ [line];
              count = sum_list (map (\<lambda>chunk. count_unescaped chunk q) buf)
          in if count mod 2 = 0
             then st\<lparr>repaired := repaired st @ [join_stripped buf], buffer := [], quote_char := None\<rparr>
             else st\<lparr>buffer := buf\<rparr>)"

definition repair_scan :: "ustr list \<Rightarrow> repair_state" where
  "repair_scan lines = foldl repair_step \<lparr>repaired = [], buffer = [], quote_char = None\<rparr> lines"

definition close_joined :: "nat option \<Rightarrow> ustr \<Rightarrow> ustr" where
  "close_joined q joined =
     (if q = Some SQ \<and> \<not> endswith (strip joined) [SQ, 41] then joined @ [SQ, 41]
      else if q = Some DQ \<and> \<not> endswith (strip joined) [DQ, 41] then joined @ [DQ, 41]
      else joined)"

definition repair_multiline_calls :: "ustr list \<Rightarrow> ustr list" where
  "repair_multiline_calls lines =
     (let st = repair_scan lines
      in if buffer st \<noteq> []
         then repaired st @ [close_joined (quote_char st) (join_stripped (buffer st))]
         else repaired st)"

subsection \<open>What is buffered at the end of the input\<close>

text \<open>
  While a quote is open the buffer holds the last lines of the input, starting at a line
  with a text or equation call, and the buffered lines contain an odd number of unescaped
  quotes of the open kind.
\<close>

definition repair_inv :: "ustr list \<Rightarrow> repair_state \<Rightarrow> bool" where
  "repair_inv lines st \<longleftrightarrow>
     (case quote_char st of
        None \<Rightarrow> buffer st = []
      | Some q \<Rightarrow>
          (q = SQ \<or> q = DQ) \<and> buffer st \<noteq> [] \<and> suffix (buffer st) lines \<and>
          has_text_or_equation_call (hd (buffer st)) \<and>
          odd (sum_list (map (\<lambda>chunk. count_unescaped chunk q) (buffer st))))"

lemma repair_inv_step:
  "repair_inv lines st \<Longrightarrow> repair_inv (lines @ [line]) (repair_step st line)"
proof (cases "quote_char st")
  case None
  assume "repair_inv lines st"
  with None have "buffer st = []"
    by (simp add: repair_inv_def)
  with None show ?thesis
    by (auto simp: repair_inv_def repair_step_def odd_iff_mod_2_eq_one)
next
  case (Some q)
  assume "repair_inv lines st"
  with Some have i: "q = SQ \<or> q = DQ" "buffer st \<noteq> []" "suffix (buffer st) lines"
    "has_text_or_equation_call (hd (buffer st))"
    by (simp_all add: repair_inv_def)
  from i(3) have s: "suffix (buffer st @ [line]) (lines @ [line])"
    by (auto simp: suffix_def)
  from Some i s show ?thesis
    by (simp add: repair_inv_def repair_step_def Let_def flip: even_iff_mod_2_eq_zero)
qed

lemma repair_inv_scan: "repair_inv lines (repair_scan lines)"
proof (induction lines rule: rev_induct)
  case Nil
  show ?case by (simp add: repair_scan_def repair_inv_def)
next
  case (snoc line lines)
  from repair_inv_step [OF snoc.IH, of line]
  show ?case by (simp add: repair_scan_def)
qed

text \<open>
  Claim C7, as the code has it. The repair is a total function of the line list. When the
  input ends with an empty buffer the result is the list built so far. When it ends with
  lines buffered, a quote \<open>q\<close> is open, the buffered lines are the last lines of the input
  with an odd number of unescaped \<open>q\<close>, and the final line of the result is the buffered
  lines, each stripped, joined by single spaces; the closing quote and parenthesis are
  appended unless that line already ends with \<open>q\<close> and a closing parenthesis.
\<close>

theorem repair_end_of_input:
  "(buffer (repair_scan lines) = [] \<longrightarrow>
      repair_multiline_calls lines = repaired (repair_scan lines)) \<and>
   (buffer (repair_scan lines) \<noteq> [] \<longrightarrow>
      (\<exists>q. quote_char (repair_scan lines) = Some q \<and> (q = SQ \<or> q = DQ) \<and>
         suffix (buffer (repair_scan lines)) lines \<and>
         odd (sum_list (map (\<lambda>chunk. count_unescaped chunk q) (buffer (repair_scan lines)))) \<and>
         repair_multiline_calls lines =
           repaired (repair_scan lines) @
           [if endswith (strip (join_stripped (buffer (repair_scan lines)))) [q, 41]
            then join_stripped (buffer (repair_scan lines))
            else join_stripped (buffer (repair_scan lines)) @ [q, 41]]))"
proof (intro conjI impI)
  assume "buffer (repair_scan lines) = []"
  then show "repair_multiline_calls lines = repaired (repair_scan lines)"
    by (simp add: repair_multiline_calls_def)
next
  assume b: "buffer (repair_scan lines) \<noteq> []"
  with repair_inv_scan [of lines] obtain q where q: "quote_char (repair_scan lines) = Some q"
    by (cases "quote_char (repair_scan lines)") (auto simp: repair_inv_def)
  with repair_inv_scan [of lines] have i: "q = SQ \<or> q = DQ"
    "suffix (buffer (repair_scan lines)) lines"
    "odd (sum_list (map (\<lambda>chunk. count_unescaped chunk q) (buffer (repair_scan lines))))"
    by (simp_all add: repair_inv_def)
  have "repair_multiline_calls lines =
           repaired (repair_scan lines) @
           [if endswith (strip (join_stripped (buffer (repair_scan lines)))) [q, 41]
            then join_stripped (buffer (repair_scan lines))
            else join_stripped (buffer (repair_scan lines)) @ [q, 41]]"
    using b q i(1) by (auto simp: repair_multiline_calls_def close_joined_def Let_def)
  with q i show "\<exists>q. quote_char (repair_scan lines) = Some q \<and> (q = SQ \<or> q = DQ) \<and>
         suffix (buffer (repair_scan lines)) lines \<and>
         odd (sum_list (map (\<lambda>chunk. count_unescaped chunk q) (buffer (repair_scan lines)))) \<and>
         repair_multiline_calls lines =
           repaired (repair_scan lines) @
           [if endswith (strip (join_stripped (buffer (repair_scan lines)))) [q, 41]
            then join_stripped (buffer (repair_scan lines))
            else join_stripped (buffer (repair_scan lines)) @ [q, 41]]"
    by blast
qed

definition its_line :: ustr where
  "its_line = str ''insert_text('' @ [SQ] @ str ''it'' @ [SQ] @ str ''s'' @ [SQ] @ str '')''"

definition open_lines :: "ustr list" where
  "open_lines = [str ''insert_text('' @ [SQ] @ str ''a '', str '' b'']"


lemma repair_scan_its_line:
  "repair_scan [its_line] = \<lparr>repaired = [], buffer = [its_line], quote_char = Some SQ\<rparr>"
  by (simp add: repair_scan_def repair_step_def has_text_or_equation_call_def its_line_def
      str_def count_unescaped_def)

lemma repair_scan_open_lines:
  "repair_scan open_lines = \<lparr>repaired = [], buffer = open_lines, quote_char = Some SQ\<rparr>"
  by (simp add: repair_scan_def repair_step_def has_text_or_equation_call_def open_lines_def
      str_def count_unescaped_def)

theorem repair_end_of_input_witness:
  "repair_multiline_calls open_lines = [str ''insert_text('' @ [SQ] @ str ''a b'' @ [SQ, 41]]"
proof -
  have j: "join_stripped open_lines = str ''insert_text('' @ [SQ] @ str ''a b''"
    by (simp add: join_stripped_def open_lines_def strip_def lstrip_def rstrip_def str_def
        py_isspace_def)
  have e: "\<not> endswith (strip (str ''insert_text('' @ [SQ] @ str ''a b'')) [SQ, 41]"
    by (simp add: endswith_def strip_def lstrip_def rstrip_def str_def py_isspace_def
        suffix_def)
  have b: "buffer (repair_scan open_lines) = open_lines"
    and q: "quote_char (repair_scan open_lines) = Some SQ"
    and rp: "repaired (repair_scan open_lines) = []"
    by (simp_all add: repair_scan_open_lines)
  have ne: "open_lines \<noteq> []"
    by (simp add: open_lines_def)
  from repair_end_of_input [of open_lines] ne
  have "\<exists>q'. Some SQ = Some q' \<and> repair_multiline_calls open_lines =
          [] @ [if endswith (strip (join_stripped open_lines)) [q', 41]
                then join_stripped open_lines else join_stripped open_lines @ [q', 41]]"
    unfolding b q rp by blast
  then have "repair_multiline_calls open_lines =
          [if endswith (strip (join_stripped open_lines)) [SQ, 41]
           then join_stripped open_lines else join_stripped open_lines @ [SQ, 41]]"
    by auto
  then show ?thesis
    unfolding j using e by simp
qed

text \<open>
  Claim C7 as stated fails: the line \<^verbatim>\<open>insert_text('it's')\<close> has three quotes, the input
  ends with it buffered, and it is emitted as it is, with no closing quote and parenthesis
  appended, because it already ends with them.
\<close>

theorem repair_already_closed_counterexample:
  "buffer (repair_scan [its_line]) = [its_line] \<and>
   quote_char (repair_scan [its_line]) = Some SQ \<and>
   odd (count_unescaped its_line SQ) \<and>
   repair_multiline_calls [its_line] = [its_line] \<and>
   its_line \<noteq> join_stripped [its_line] @ [SQ, 41]"
proof -
  have j: "join_stripped [its_line] = its_line"
    by (simp add: join_stripped_def its_line_def strip_def lstrip_def rstrip_def str_def
        py_isspace_def)
  have e: "endswith (strip its_line) [SQ, 41]"
    by (simp add: endswith_def its_line_def strip_def lstrip_def rstrip_def str_def
        py_isspace_def suffix_def)
  have c: "odd (count_unescaped its_line SQ)"
    by (simp add: count_unescaped_def its_line_def str_def)
  have r: "repair_multiline_calls [its_line] = [its_line]"
    by (simp add: repair_multiline_calls_def repair_scan_its_line close_joined_def j e)
  show ?thesis
    by (simp add: repair_scan_its_line c r j)
qed

section \<open>Placeholder normalizer\<close>

text \<open>
  \<^verbatim>\<open>ScriptRunner._normalize_placeholders\<close>. Each regular expression of the function is a
  scanner over the stripped line: \<open>fp_marker\<close> is \<^verbatim>\<open>fp_re\<close> and returns group 2 (the
  lazy group ends at the last quote, which only white space and the closing parenthesis
  may follow, and holds no line feed); \<open>after_text_quote\<close> is the common prefix
  \<^verbatim>\<open>^\s*insert_text\(\s*['"]\s*\<close> of \<^verbatim>\<open>box_item_re\<close> and
  \<^verbatim>\<open>box_start_re\<close>. The Korean letters, the bullets and the circled digit one are
  written as code points.
\<close>

definition fp_marker :: "ustr \<Rightarrow> ustr option" where
  "fp_marker s =
     (let s1 = lstrip s in
      if \<not> startswith s1 (str ''focus_placeholder('') then None
      else case lstrip (drop 18 s1) of
             [] \<Rightarrow> None
           | q # rest \<Rightarrow>
               if q \<noteq> SQ \<and> q \<noteq> DQ then None
               else let r = rstrip rest in
                    if r = [] \<or> last r \<noteq> 41 then None
                    else let r2 = rstrip (butlast r) in
                         if r2 = [] \<or> last r2 \<noteq> q \<or> 10 \<in> set (butlast r2) then None
                         else Some (butlast r2))"

definition after_text_quote :: "ustr \<Rightarrow> ustr option" where
  "after_text_quote s =
     (let t = lstrip s in
      if \<not> startswith t (str ''insert_text('') then None
      else case lstrip (drop 12 t) of
             [] \<Rightarrow> None
           | q # r \<Rightarrow> if q = SQ \<or> q = DQ then Some (lstrip r) else None)"

definition box_item_re :: "ustr \<Rightarrow> bool" where
  "box_item_re s \<longleftrightarrow>
     (case after_text_quote s of
        Some (c # d # _) \<Rightarrow> (c = 12593 \<or> c = 12596 \<or> c = 12599) \<and> d = 46
      | _ \<Rightarrow> False)"

definition content_re :: "ustr \<Rightarrow> bool" where
  "content_re s \<longleftrightarrow>
     (let t = lstrip s in
      startswith t (str ''insert_text('') \<or> startswith t (str ''insert_equation('') \<or>
      startswith t (str ''set_bold('') \<or> startswith t (str ''set_align_justify_next_line('') \<or>
      startswith t (str ''set_align_right_next_line(''))"

definition box_start_re :: "ustr \<Rightarrow> bool" where
  "box_start_re s \<longleftrightarrow>
     (case after_text_quote s of
        Some (c # r) \<Rightarrow>
          c = 40 \<or> c = 9675 \<or> c = 9678 \<or> c = 9679 \<or> c = 8226 \<or>
          ((c = 12593 \<or> c = 12596 \<or> c = 12599 \<or> c = 44032 \<or> c = 45208 \<or> c = 45796) \<and>
           startswith r [46])
      | _ \<Rightarrow> False)"

definition choice_re :: "ustr \<Rightarrow> bool" where
  "choice_re s \<longleftrightarrow>
     (let t = lstrip s;
          u = (if startswith t (str ''insert_text('') then Some (drop 12 t)
               else if startswith t (str ''insert_equation('') then Some (drop 16 t)
               else None)
      in case u of
           None \<Rightarrow> False
         | Some u \<Rightarrow>
             (case lstrip u of
                [] \<Rightarrow> False
              | q # r \<Rightarrow> (q = SQ \<or> q = DQ) \<and> 9312 \<in> set (takeWhile (\<lambda>c. c \<noteq> 10) r)))"

text \<open>
  The state of the loop: the output list and the six flags. Each output line carries its
  origin: \<open>Copied\<close> for \<^verbatim>\<open>out.append(line)\<close>, \<open>Synth\<close> for a literal the pass appends.
  The result of the pass is the list of the lines without the origins.
\<close>

datatype origin = Copied | Synth

record np_state =
  np_out :: "(origin \<times> ustr) list"
  seen_inside :: bool
  inserted_inside :: bool
  saw_template :: bool
  has_choices_placeholder :: bool
  saw_outside :: bool
  saw_after_box :: bool

definition fp_outside_line :: ustr where
  "fp_outside_line = str ''focus_placeholder('' @ [SQ, 64, 64, 64, SQ] @ str '')''"

definition fp_inside_line :: ustr where
  "fp_inside_line = str ''focus_placeholder('' @ [SQ, 35, 35, 35, SQ] @ str '')''"

definition fp_after_line :: ustr where
  "fp_after_line = str ''focus_placeholder('' @ [SQ, 38, 38, 38, SQ] @ str '')''"

definition justify_line :: ustr where
  "justify_line = str ''set_align_justify_next_line()''"

definition exit_box_line :: ustr where
  "exit_box_line = str ''exit_box()''"

definition paragraph_line :: ustr where
  "paragraph_line = str ''insert_paragraph()''"

definition emit :: "(origin \<times> ustr) list \<Rightarrow> np_state \<Rightarrow> np_state" where
  "emit ls st = st\<lparr>np_out := np_out st @ ls\<rparr>"

definition is_template_line :: "ustr \<Rightarrow> bool" where
  "is_template_line stripped \<longleftrightarrow>
     startswith stripped (str ''insert_template('') \<and>
     (contains (str ''header.hwp'') stripped \<or> contains (str ''box.hwp'') stripped \<or>
      contains (str ''box_white.hwp'') stripped)"

text \<open>
  The four conditional statements of the branch for a line that is no placeholder call,
  in the order of the source, and the branch itself.
\<close>

definition np_synth_outside :: "ustr \<Rightarrow> np_state \<Rightarrow> np_state" where
  "np_synth_outside stripped st =
     (if saw_template st \<and> \<not> saw_outside st \<and> content_re stripped
      then (emit [(Synth, fp_outside_line)] st)\<lparr>saw_outside := True\<rparr> else st)"

definition np_synth_inside :: "ustr \<Rightarrow> np_state \<Rightarrow> np_state" where
  "np_synth_inside stripped st =
     (if \<not> seen_inside st \<and> saw_template st \<and> has_choices_placeholder st \<and>
         saw_outside st \<and> \<not> saw_after_box st \<and>
         (stripped = justify_line \<or> box_item_re stripped \<or> box_start_re stripped)
      then (emit [(Synth, fp_inside_line)] st)\<lparr>seen_inside := True, inserted_inside := True\<rparr>
      else st)"

definition np_synth_inside_item :: "ustr \<Rightarrow> np_state \<Rightarrow> np_state" where
  "np_synth_inside_item stripped st =
     (if \<not> seen_inside st \<and> saw_template st \<and> saw_outside st \<and> box_item_re stripped
      then (if np_out st \<noteq> [] \<and> strip (snd (last (np_out st))) = justify_line
            then st\<lparr>np_out := butlast (np_out st) @
                          [(Synth, fp_inside_line), (Synth, justify_line)]\<rparr>
            else emit [(Synth, fp_inside_line)] st)
             \<lparr>seen_inside := True, inserted_inside := True\<rparr>
      else st)"

definition np_synth_after :: "ustr \<Rightarrow> np_state \<Rightarrow> np_state" where
  "np_synth_after stripped st =
     (if seen_inside st \<and> saw_template st \<and> has_choices_placeholder st \<and>
         \<not> saw_after_box st \<and> choice_re stripped
      then (emit [(Synth, exit_box_line), (Synth, paragraph_line), (Synth, fp_after_line)] st)
             \<lparr>saw_after_box := True\<rparr>
      else st)"

definition np_content :: "ustr \<Rightarrow> ustr \<Rightarrow> np_state \<Rightarrow> np_state" where
  "np_content line stripped st =
     emit [(Copied, line)]
       (np_synth_after stripped
         (np_synth_inside_item stripped
           (np_synth_inside stripped
             (np_synth_outside stripped st))))"

definition np_marker :: "ustr \<Rightarrow> ustr \<Rightarrow> np_state \<Rightarrow> np_state" where
  "np_marker line marker st =
     (if marker = [35, 35, 35] then
        (if \<not> inserted_inside st then emit [(Copied, line)] (st\<lparr>seen_inside := True\<rparr>) else st)
      else if marker = [64, 64, 64] then
        (let st = st\<lparr>saw_outside := True\<rparr>
         in if seen_inside st then emit [(Synth, exit_box_line), (Synth, paragraph_line)] st
            else if saw_template st then emit [(Copied, line)] st
            else st)
      else if marker = [38, 38, 38] then
        (if has_choices_placeholder st then
           (let st = st\<lparr>saw_after_box := True\<rparr>
            in if seen_inside st
               then emit [(Synth, exit_box_line), (Synth, paragraph_line), (Copied, line)] st
               else emit [(Copied, line)] st)
         else st)
      else emit [(Copied, line)] st)"

definition np_step :: "np_state \<Rightarrow> ustr \<Rightarrow> np_state" where
  "np_step st line =
     (let stripped = strip line in
      if is_template_line stripped then
        emit [(Copied, line)]
          (st\<lparr>saw_template := True,
               has_choices_placeholder :=
                 (contains (str ''header.hwp'') stripped \<or> contains (str ''box_white.hwp'') stripped \<or>
                  contains (str ''box.hwp'') stripped \<or> has_choices_placeholder st)\<rparr>)
      else case fp_marker stripped of
             None \<Rightarrow> np_content line stripped st
           | Some marker \<Rightarrow> np_marker line marker st)"

definition np_init :: np_state where
  "np_init = \<lparr>np_out = [], seen_inside = False, inserted_inside = False, saw_template = False,
              has_choices_placeholder = False, saw_outside = False, saw_after_box = False\<rparr>"

definition np_scan :: "ustr list \<Rightarrow> np_state" where
  "np_scan lines = foldl np_step np_init lines"

definition normalize_placeholders :: "ustr list \<Rightarrow> ustr list" where
  "normalize_placeholders lines = map snd (np_out (np_scan lines))"


subsection \<open>The markers the pass synthesizes\<close>

text \<open>
  The synthesized marker lines of an output, in their order, and the invariant of the loop
  that ties them to the flags.
\<close>

definition is_marker_line :: "ustr \<Rightarrow> bool" where
  "is_marker_line l \<longleftrightarrow> l = fp_outside_line \<or> l = fp_inside_line \<or> l = fp_after_line"

definition synth_markers :: "(origin \<times> ustr) list \<Rightarrow> ustr list" where
  "synth_markers ls = map snd (filter (\<lambda>e. fst e = Synth \<and> is_marker_line (snd e)) ls)"

definition marker_seq :: "bool \<Rightarrow> bool \<Rightarrow> bool \<Rightarrow> ustr list" where
  "marker_seq bo bi ba =
     (if bo then [fp_outside_line] else []) @ (if bi then [fp_inside_line] else []) @
     (if ba then [fp_after_line] else [])"

definition np_inv :: "np_state \<Rightarrow> bool" where
  "np_inv st \<longleftrightarrow>
     (\<exists>bo ba. synth_markers (np_out st) = marker_seq bo (inserted_inside st) ba \<and>
        (bo \<longrightarrow> saw_outside st) \<and>
        (inserted_inside st \<longrightarrow> seen_inside st \<and> saw_outside st) \<and>
        (ba \<longrightarrow> saw_after_box st \<and> seen_inside st \<and> saw_outside st))"

lemma marker_lines_distinct:
  "fp_outside_line \<noteq> fp_inside_line" "fp_outside_line \<noteq> fp_after_line"
  "fp_inside_line \<noteq> fp_after_line"
  "\<not> is_marker_line exit_box_line" "\<not> is_marker_line paragraph_line"
  "\<not> is_marker_line justify_line"
  by (simp_all add: is_marker_line_def fp_outside_line_def fp_inside_line_def fp_after_line_def
      exit_box_line_def paragraph_line_def justify_line_def str_def)

lemma strip_marker_lines:
  "strip fp_outside_line = fp_outside_line" "strip fp_inside_line = fp_inside_line"
  "strip fp_after_line = fp_after_line"
  by (simp_all add: fp_outside_line_def fp_inside_line_def fp_after_line_def str_def strip_def
      lstrip_def rstrip_def py_isspace_def)

lemma synth_markers_simps [simp]:
  "synth_markers [] = []"
  "synth_markers (xs @ ys) = synth_markers xs @ synth_markers ys"
  "synth_markers ((Copied, l) # xs) = synth_markers xs"
  "synth_markers ((Synth, l) # xs) = (if is_marker_line l then l # synth_markers xs else synth_markers xs)"
  by (simp_all add: synth_markers_def)

lemma is_marker_line_simps [simp]:
  "is_marker_line fp_outside_line" "is_marker_line fp_inside_line" "is_marker_line fp_after_line"
  "\<not> is_marker_line exit_box_line" "\<not> is_marker_line paragraph_line"
  "\<not> is_marker_line justify_line"
  using marker_lines_distinct by (simp_all add: is_marker_line_def)

lemma synth_markers_butlast:
  assumes "ls \<noteq> []" "strip (snd (last ls)) = justify_line"
  shows "synth_markers (butlast ls) = synth_markers ls"
proof -
  have n: "\<not> is_marker_line (snd (last ls))"
  proof
    assume "is_marker_line (snd (last ls))"
    then have "strip (snd (last ls)) = snd (last ls)"
      by (auto simp: is_marker_line_def strip_marker_lines)
    with assms(2) \<open>is_marker_line (snd (last ls))\<close> show False
      by simp
  qed
  from assms(1) have "ls = butlast ls @ [last ls]" by simp
  then have "synth_markers ls = synth_markers (butlast ls) @ synth_markers [last ls]"
    by (metis synth_markers_simps(2))
  with n show ?thesis
    by (cases "last ls") (simp add: synth_markers_def)
qed

lemma marker_seq_simps:
  "marker_seq False False False = []"
  "marker_seq bo False False @ [fp_inside_line] = marker_seq bo True False"
  "marker_seq bo bi False @ [fp_after_line] = marker_seq bo bi True"
  "[fp_outside_line] = marker_seq True False False"
  by (simp_all add: marker_seq_def)

lemma np_inv_outside:
  "np_inv st \<Longrightarrow> np_inv (np_synth_outside stripped st)"
  unfolding np_inv_def np_synth_outside_def emit_def
  apply (cases "saw_template st \<and> \<not> saw_outside st \<and> content_re stripped")
   apply simp_all
  apply (rule exI [of _ True], rule exI [of _ False])
  apply (auto simp: marker_seq_def)
  done


definition outside_ready :: "ustr \<Rightarrow> np_state \<Rightarrow> bool" where
  "outside_ready stripped st \<longleftrightarrow> (saw_template st \<and> content_re stripped \<longrightarrow> saw_outside st)"

lemma outside_ready_outside: "outside_ready stripped (np_synth_outside stripped st)"
  by (simp add: outside_ready_def np_synth_outside_def emit_def)

lemma np_inv_inside:
  assumes "np_inv st"
  shows "np_inv (np_synth_inside stripped st)"
proof (cases "np_synth_inside stripped st = st")
  case True
  with assms show ?thesis by simp
next
  case False
  then have c: "\<not> seen_inside st" "saw_outside st"
    and e: "np_synth_inside stripped st =
        (emit [(Synth, fp_inside_line)] st)\<lparr>seen_inside := True, inserted_inside := True\<rparr>"
    by (auto simp: np_synth_inside_def split: if_splits)
  from assms c obtain bo where "synth_markers (np_out st) = marker_seq bo False False"
    "bo \<longrightarrow> saw_outside st"
    by (auto simp: np_inv_def)
  then show ?thesis
    unfolding np_inv_def e emit_def using c
    by (intro exI [of _ bo] exI [of _ False]) (simp add: marker_seq_simps)
qed

lemma np_inv_inside_item:
  assumes "np_inv st"
  shows "np_inv (np_synth_inside_item stripped st)"
proof (cases "np_synth_inside_item stripped st = st")
  case True
  with assms show ?thesis by simp
next
  case False
  then have c: "\<not> seen_inside st" "saw_outside st"
    by (auto simp: np_synth_inside_item_def split: if_splits)
  from assms c obtain bo where m: "synth_markers (np_out st) = marker_seq bo False False"
    "bo \<longrightarrow> saw_outside st"
    by (auto simp: np_inv_def)
  show ?thesis
  proof (cases "np_out st \<noteq> [] \<and> strip (snd (last (np_out st))) = justify_line")
    case True
    then have b: "synth_markers (butlast (np_out st)) = synth_markers (np_out st)"
      using synth_markers_butlast by blast
    from False True have e: "np_synth_inside_item stripped st =
        st\<lparr>np_out := butlast (np_out st) @ [(Synth, fp_inside_line), (Synth, justify_line)],
           seen_inside := True, inserted_inside := True\<rparr>"
      by (auto simp: np_synth_inside_item_def split: if_splits)
    show ?thesis
      unfolding np_inv_def e using c m b
      by (intro exI [of _ bo] exI [of _ False]) (simp add: marker_seq_simps)
  next
    case n: False
    with False have e: "np_synth_inside_item stripped st =
        (emit [(Synth, fp_inside_line)] st)\<lparr>seen_inside := True, inserted_inside := True\<rparr>"
      by (auto simp: np_synth_inside_item_def split: if_splits)
    show ?thesis
      unfolding np_inv_def e emit_def using c m
      by (intro exI [of _ bo] exI [of _ False]) (simp add: marker_seq_simps)
  qed
qed

lemma outside_ready_inside:
  "outside_ready stripped st \<Longrightarrow> outside_ready stripped (np_synth_inside stripped st)"
  by (simp add: outside_ready_def np_synth_inside_def emit_def)

lemma outside_ready_inside_item:
  "outside_ready stripped st \<Longrightarrow> outside_ready stripped (np_synth_inside_item stripped st)"
  by (simp add: outside_ready_def np_synth_inside_item_def emit_def)

lemma choice_re_content_re: "choice_re s \<Longrightarrow> content_re s"
  by (auto simp: choice_re_def content_re_def Let_def split: if_splits)

lemma np_inv_after:
  assumes "np_inv st" "outside_ready stripped st"
  shows "np_inv (np_synth_after stripped st)"
proof (cases "np_synth_after stripped st = st")
  case True
  with assms show ?thesis by simp
next
  case False
  then have c: "seen_inside st" "saw_template st" "\<not> saw_after_box st" "choice_re stripped"
    and e: "np_synth_after stripped st =
        (emit [(Synth, exit_box_line), (Synth, paragraph_line), (Synth, fp_after_line)] st)
             \<lparr>saw_after_box := True\<rparr>"
    by (auto simp: np_synth_after_def split: if_splits)
  from c assms(2) have so: "saw_outside st"
    by (simp add: outside_ready_def choice_re_content_re)
  from assms(1) c obtain bo where m: "synth_markers (np_out st) = marker_seq bo (inserted_inside st) False"
    "bo \<longrightarrow> saw_outside st" "inserted_inside st \<longrightarrow> seen_inside st \<and> saw_outside st"
    by (auto simp: np_inv_def)
  show ?thesis
    unfolding np_inv_def e emit_def using c m so
    by (intro exI [of _ bo] exI [of _ True]) (simp add: marker_seq_simps)
qed

lemma np_inv_emit_copied: "np_inv st \<Longrightarrow> np_inv (emit [(Copied, l)] st)"
  by (simp add: np_inv_def emit_def)

lemma np_inv_content: "np_inv st \<Longrightarrow> np_inv (np_content line stripped st)"
  unfolding np_content_def
  by (intro np_inv_emit_copied np_inv_after np_inv_inside_item np_inv_inside np_inv_outside
      outside_ready_inside_item outside_ready_inside outside_ready_outside)

lemma np_inv_frame:
  assumes "np_inv st"
    and "synth_markers (np_out st') = synth_markers (np_out st)"
    and "inserted_inside st' = inserted_inside st"
    and "saw_outside st \<longrightarrow> saw_outside st'"
    and "seen_inside st \<longrightarrow> seen_inside st'"
    and "saw_after_box st \<longrightarrow> saw_after_box st'"
  shows "np_inv st'"
proof -
  from assms(1) obtain bo ba where
    "synth_markers (np_out st) = marker_seq bo (inserted_inside st) ba"
    "bo \<longrightarrow> saw_outside st" "inserted_inside st \<longrightarrow> seen_inside st \<and> saw_outside st"
    "ba \<longrightarrow> saw_after_box st \<and> seen_inside st \<and> saw_outside st"
    by (auto simp: np_inv_def)
  with assms(2-) show ?thesis
    unfolding np_inv_def by (intro exI [of _ bo] exI [of _ ba]) simp
qed

lemma np_inv_marker: "np_inv st \<Longrightarrow> np_inv (np_marker line marker st)"
  by (erule np_inv_frame) (simp_all add: np_marker_def emit_def Let_def)

lemma np_inv_step: "np_inv st \<Longrightarrow> np_inv (np_step st line)"
proof -
  assume i: "np_inv st"
  have t: "np_inv (emit [(Copied, line)] (st\<lparr>saw_template := True, has_choices_placeholder := b\<rparr>))"
    for b
    using i by (simp add: np_inv_def emit_def)
  show ?thesis
    unfolding np_step_def Let_def
    using t np_inv_content [OF i] np_inv_marker [OF i]
    by (simp split: option.splits)
qed

lemma np_inv_scan: "np_inv (np_scan lines)"
proof (induction lines rule: rev_induct)
  case Nil
  show ?case
    unfolding np_scan_def np_inv_def
    by (intro exI [of _ False]) (simp add: np_init_def marker_seq_def)
next
  case (snoc line lines)
  from np_inv_step [OF snoc.IH, of line] show ?case
    by (simp add: np_scan_def)
qed





definition call1 :: "string \<Rightarrow> string \<Rightarrow> ustr" where
  "call1 f a = str f @ [40, SQ] @ str a @ [SQ, 41]"


lemmas str_eval = str_def strip_def lstrip_def rstrip_def py_isspace_def startswith_def

lemmas np_eval = np_scan_def np_step_def np_content_def np_marker_def np_synth_outside_def
  np_synth_inside_def np_synth_inside_item_def np_synth_after_def emit_def np_init_def
  is_template_line_def fp_marker_def content_re_def box_item_re_def box_start_re_def
  choice_re_def after_text_quote_def fp_inside_line_def fp_outside_line_def fp_after_line_def
  justify_line_def exit_box_line_def paragraph_line_def call1_def Let_def




text \<open>
  Claim C5 as stated fails: the first explicit \<^verbatim>\<open>focus_placeholder('###')\<close> is consumed
  (\<open>seen_inside\<close> is set), and the second one is copied to the output all the same.
\<close>

theorem second_explicit_inside_marker_kept_counterexample:
  "fp_marker (strip fp_inside_line) = Some [35, 35, 35] \<and>
   seen_inside (np_scan [fp_inside_line]) \<and>
   normalize_placeholders [fp_inside_line, fp_inside_line] = [fp_inside_line, fp_inside_line]"
  by (simp add: normalize_placeholders_def np_eval str_eval)

lemma rstrip_Cons_nonspace:
  "\<not> py_isspace c \<Longrightarrow> rstrip (c # cs) = c # rstrip cs"
  by (simp add: rstrip_def dropWhile_append3)

lemma lstrip_strip: "lstrip (strip l) = strip l"
proof (cases "lstrip l")
  case Nil
  show ?thesis unfolding strip_def Nil by (simp add: rstrip_def lstrip_def)
next
  case (Cons c cs)
  then have "\<not> py_isspace c"
    unfolding lstrip_def by (metis hd_dropWhile list.distinct(1) list.sel(1))
  with Cons show ?thesis
    by (simp add: strip_def rstrip_Cons_nonspace) (simp add: lstrip_def)
qed

lemma fp_marker_not_template:
  assumes "fp_marker (strip l) = Some m"
  shows "\<not> is_template_line (strip l)"
proof -
  from assms have "startswith (strip l) (str ''focus_placeholder('')"
    by (simp add: fp_marker_def lstrip_strip Let_def split: if_splits)
  then show ?thesis
    by (auto simp: is_template_line_def startswith_def str_def prefix_def)
qed

lemma inserted_inside_iff_synthesized:
  assumes "np_inv st"
  shows "inserted_inside st \<longleftrightarrow> (Synth, fp_inside_line) \<in> set (np_out st)"
proof -
  from assms obtain bo ba where
    m: "synth_markers (np_out st) = marker_seq bo (inserted_inside st) ba"
    by (auto simp: np_inv_def)
  have "(Synth, fp_inside_line) \<in> set (np_out st) \<longleftrightarrow> fp_inside_line \<in> set (synth_markers (np_out st))"
    by (force simp: synth_markers_def)
  also have "\<dots> \<longleftrightarrow> inserted_inside st"
    unfolding m using marker_lines_distinct by (auto simp: marker_seq_def)
  finally show ?thesis by simp
qed

text \<open>
  Claim C5, as the code has it. An explicit \<^verbatim>\<open>focus_placeholder('###')\<close> line is dropped
  exactly when the pass has synthesized the inside-box marker on the lines before it;
  otherwise it is copied to the output, whether or not an earlier explicit occurrence was
  consumed.
\<close>

theorem explicit_inside_marker_dropped_iff_synthesized:
  "fp_marker (strip line) = Some [35, 35, 35] \<Longrightarrow>
   np_out (np_scan (before @ [line])) =
     (if (Synth, fp_inside_line) \<in> set (np_out (np_scan before))
      then np_out (np_scan before) else np_out (np_scan before) @ [(Copied, line)])"
proof -
  assume f: "fp_marker (strip line) = Some [35, 35, 35]"
  have s: "np_scan (before @ [line]) = np_marker line [35, 35, 35] (np_scan before)"
    using f fp_marker_not_template [OF f]
    by (simp add: np_scan_def np_step_def)
  show ?thesis
    unfolding s
    using inserted_inside_iff_synthesized [OF np_inv_scan, of before]
    by (simp add: np_marker_def emit_def)
qed


definition synthesized_inside_script :: "ustr list" where
  "synthesized_inside_script =
     [call1 ''insert_template'' ''box.hwp'', call1 ''insert_text'' ''x'', justify_line]"

lemma synthesized_inside_scan:
  "np_out (np_scan synthesized_inside_script) =
     [(Copied, call1 ''insert_template'' ''box.hwp''), (Synth, fp_outside_line),
      (Copied, call1 ''insert_text'' ''x''), (Synth, fp_inside_line), (Copied, justify_line)]"
  by (simp add: synthesized_inside_script_def np_eval str_eval)

theorem explicit_inside_marker_dropped_witness:
  "np_out (np_scan (synthesized_inside_script @ [fp_inside_line])) =
     [(Copied, call1 ''insert_template'' ''box.hwp''), (Synth, fp_outside_line),
      (Copied, call1 ''insert_text'' ''x''), (Synth, fp_inside_line), (Copied, justify_line)]"
proof -
  have f: "fp_marker (strip fp_inside_line) = Some [35, 35, 35]"
    by (simp add: np_eval str_eval)
  from explicit_inside_marker_dropped_iff_synthesized [OF f, of synthesized_inside_script]
  show ?thesis
    by (simp add: synthesized_inside_scan)
qed

section \<open>Score-line formatter\<close>

text \<open>
  \<^verbatim>\<open>ScriptRunner._ensure_score_right_align\<close>. \<open>score_re\<close> is the regular expression of
  the function as a scanner over the line; it returns group 4, the digits. \<open>re_digit\<close> is
  the class \<^verbatim>\<open>\d\<close> of a Unicode pattern, the decimal digits of the Unicode character
  database (version 14, as in Python 3.11); no digit is white space, so the scanner reads
  the line as the backtracking matcher does. \<open>pop_trailing\<close> is the inner
  \<^verbatim>\<open>while\<close> loop that removes paragraph instructions from the end of the output, and
  \<open>score_line_block\<close> is the rest of the branch of a score line. The loop over the lines is
  a left fold of \<open>score_step\<close>.
\<close>

definition unicode_Nd_ranges :: "(nat \<times> nat) list" where
  "unicode_Nd_ranges =
     [(48, 57), (1632, 1641), (1776, 1785), (1984, 1993), (2406, 2415), (2534, 2543),
      (2662, 2671), (2790, 2799), (2918, 2927), (3046, 3055), (3174, 3183), (3302, 3311),
      (3430, 3439), (3558, 3567), (3664, 3673), (3792, 3801), (3872, 3881), (4160, 4169),
      (4240, 4249), (6112, 6121), (6160, 6169), (6470, 6479), (6608, 6617), (6784, 6793),
      (6800, 6809), (6992, 7001), (7088, 7097), (7232, 7241), (7248, 7257), (42528, 42537),
      (43216, 43225), (43264, 43273), (43472, 43481), (43504, 43513), (43600, 43609),
      (44016, 44025), (65296, 65305), (66720, 66729), (68912, 68921), (69734, 69743),
      (69872, 69881), (69942, 69951), (70096, 70105), (70384, 70393), (70736, 70745),
      (70864, 70873), (71248, 71257), (71360, 71369), (71472, 71481), (71904, 71913),
      (72016, 72025), (72784, 72793), (73040, 73049), (73120, 73129), (92768, 92777),
      (92864, 92873), (93008, 93017), (120782, 120831), (123200, 123209), (123632, 123641),
      (125264, 125273), (130032, 130041)]"

definition re_digit :: "nat \<Rightarrow> bool" where
  "re_digit c \<longleftrightarrow> list_ex (\<lambda>r. fst r \<le> c \<and> c \<le> snd r) unicode_Nd_ranges"

definition expect_char :: "nat \<Rightarrow> ustr \<Rightarrow> ustr option" where
  "expect_char c s = (case s of [] \<Rightarrow> None | x # r \<Rightarrow> if x = c then Some r else None)"

definition score_call_args :: "ustr \<Rightarrow> ustr option" where
  "score_call_args line =
     (let t = lstrip line in
      if startswith t (str ''insert_text('') then Some (drop 12 t)
      else if startswith t (str ''insert_equation('') then Some (drop 16 t)
      else if startswith t (str ''insert_latex_equation('') then Some (drop 22 t)
      else None)"

definition score_re :: "ustr \<Rightarrow> ustr option" where
  "score_re line =
     Option.bind (score_call_args line) (\<lambda>u.
       case lstrip u of
         [] \<Rightarrow> None
       | q # v \<Rightarrow>
           (if q \<noteq> SQ \<and> q \<noteq> DQ then None
            else
              Option.bind (expect_char 91 (lstrip v)) (\<lambda>w.
                if takeWhile re_digit (lstrip w) = [] then None
                else
                  Option.bind (expect_char 51216 (lstrip (dropWhile re_digit (lstrip w)))) (\<lambda>y.
                  Option.bind (expect_char 93 (lstrip y)) (\<lambda>z.
                  Option.bind (expect_char q (lstrip z)) (\<lambda>z2.
                  Option.bind (expect_char 41 (lstrip z2)) (\<lambda>e.
                    if lstrip e = [] then Some (takeWhile re_digit (lstrip w)) else None)))))))"

definition small_paragraph_line :: ustr where
  "small_paragraph_line = str ''insert_small_paragraph()''"

definition align_right_line :: ustr where
  "align_right_line = str ''set_align_right_next_line()''"

definition score_text :: "ustr \<Rightarrow> ustr" where
  "score_text score_num = str ''insert_text('' @ [SQ, 91] @ score_num @ [51216, 93, SQ, 41]"

function pop_trailing :: "ustr list \<Rightarrow> ustr list" where
  "pop_trailing out =
     (if out \<noteq> [] \<and>
         (strip (last out) = small_paragraph_line \<or> strip (last out) = paragraph_line)
      then
        (if strip (last out) = paragraph_line then
           (if 2 \<le> length out \<and> strip (out ! (length out - 2)) = paragraph_line
            then pop_trailing (butlast out)
            else out)
         else pop_trailing (butlast out))
      else out)"
  by pat_completeness auto
termination
  by (relation "measure length") auto

declare pop_trailing.simps [simp del]

record score_state =
  sc_out :: "ustr list"
  need_extra_blank_line :: bool
  in_line_content :: bool

definition score_line_block :: "ustr \<Rightarrow> ustr list \<Rightarrow> ustr list" where
  "score_line_block score_num out0 =
     (let out1 = pop_trailing out0;
          out2 = (if out1 \<noteq> [] \<and> strip (last out1) \<noteq> paragraph_line
                  then out1 @ [paragraph_line] else out1);
          prev = (if out2 \<noteq> [] then strip (last out2) else []);
          out3 = (if prev \<noteq> align_right_line then out2 @ [align_right_line] else out2)
      in out3 @ [score_text score_num, paragraph_line])"

definition score_step :: "score_state \<Rightarrow> ustr \<Rightarrow> score_state" where
  "score_step st line =
     (let stripped = strip line in
      if stripped = paragraph_line \<or> stripped = small_paragraph_line then
        st\<lparr>in_line_content := False, need_extra_blank_line := False,
           sc_out := sc_out st @ [line]\<rparr>
      else
        let st = (if need_extra_blank_line st \<and> stripped \<noteq> []
                  then st\<lparr>sc_out := sc_out st @ [paragraph_line],
                          need_extra_blank_line := False\<rparr>
                  else st)
        in case score_re line of
             Some score_num \<Rightarrow>
               st\<lparr>sc_out := score_line_block score_num (sc_out st),
                  in_line_content := False, need_extra_blank_line := True\<rparr>
           | None \<Rightarrow>
               st\<lparr>sc_out := sc_out st @ [line],
                  in_line_content := (stripped \<noteq> [] \<or> in_line_content st)\<rparr>)"

definition score_init :: score_state where
  "score_init = \<lparr>sc_out = [], need_extra_blank_line = False, in_line_content = False\<rparr>"

definition score_scan :: "ustr list \<Rightarrow> score_state" where
  "score_scan lines = foldl score_step score_init lines"

definition ensure_score_right_align :: "ustr list \<Rightarrow> ustr list" where
  "ensure_score_right_align lines = sc_out (score_scan lines)"


subsection \<open>A score line in the middle of a paragraph\<close>

text \<open>
  Kinds of lines: blank, a paragraph instruction, and a content line that is neither of
  these nor a score line.
\<close>

definition blank_line :: "ustr \<Rightarrow> bool" where
  "blank_line l \<longleftrightarrow> strip l = []"

definition break_line :: "ustr \<Rightarrow> bool" where
  "break_line l \<longleftrightarrow> strip l = paragraph_line \<or> strip l = small_paragraph_line"

definition plain_content_line :: "ustr \<Rightarrow> bool" where
  "plain_content_line l \<longleftrightarrow> \<not> blank_line l \<and> \<not> break_line l \<and> score_re l = None"

definition score_from :: "score_state \<Rightarrow> ustr list \<Rightarrow> score_state" where
  "score_from st lines = foldl score_step st lines"

lemma score_scan_append: "score_scan (xs @ ys) = score_from (score_scan xs) ys"
  by (simp add: score_scan_def score_from_def)

lemma score_from_append: "score_from st (xs @ ys) = score_from (score_from st xs) ys"
  by (simp add: score_from_def)

lemma score_from_Cons: "score_from st (x # xs) = score_from (score_step st x) xs"
  by (simp add: score_from_def)

lemma score_from_Nil: "score_from st [] = st"
  by (simp add: score_from_def)

lemma pop_trailing_not_break:
  "out \<noteq> [] \<Longrightarrow> \<not> break_line (last out) \<Longrightarrow> pop_trailing out = out"
  by (subst pop_trailing.simps) (auto simp: break_line_def)

lemma pop_trailing_cases:
  "pop_trailing out = out \<or> pop_trailing out = pop_trailing (butlast out)"
  using pop_trailing.simps [of out] by (auto split: if_splits)

lemma pop_trailing_keeps_prefix:
  "pop_trailing base = base \<Longrightarrow> prefix base (pop_trailing (base @ r))"
proof (induction r rule: rev_induct)
  case Nil
  then show ?case by simp
next
  case (snoc x r)
  from pop_trailing_cases [of "base @ r @ [x]"]
  have "pop_trailing (base @ r @ [x]) = base @ r @ [x] \<or>
        pop_trailing (base @ r @ [x]) = pop_trailing (base @ r)"
    by (simp add: butlast_append)
  with snoc show ?case
    by auto
qed

lemma pop_trailing_prefix:
  "pop_trailing base = base \<Longrightarrow> prefix base out \<Longrightarrow> prefix base (pop_trailing out)"
  using pop_trailing_keeps_prefix by (auto elim!: prefixE)

lemma score_line_block_prefix:
  assumes "pop_trailing base = base" "prefix base out"
  shows "prefix base (score_line_block n out)"
proof -
  from pop_trailing_prefix [OF assms] obtain r where "pop_trailing out = base @ r"
    by (auto simp: prefix_def)
  then show ?thesis
    by (simp add: score_line_block_def Let_def)
qed

lemma score_step_prefix:
  assumes "pop_trailing base = base" "prefix base (sc_out st)"
  shows "prefix base (sc_out (score_step st l))"
proof -
  from assms(2) have p: "prefix base (sc_out st @ ls)" for ls
    by (auto simp: prefix_def)
  show ?thesis
    using assms p score_line_block_prefix [OF assms(1)]
    by (simp add: score_step_def Let_def split: option.splits)
qed

lemma score_from_prefix:
  "pop_trailing base = base \<Longrightarrow> prefix base (sc_out st) \<Longrightarrow>
   prefix base (sc_out (score_from st ls))"
proof (induction ls arbitrary: st)
  case Nil
  then show ?case by (simp add: score_from_Nil)
next
  case (Cons l ls)
  from Cons.IH [OF Cons.prems(1) score_step_prefix [OF Cons.prems, of l]]
  show ?case by (simp add: score_from_Cons)
qed


lemma strip_Nil_lstrip: "strip l = [] \<Longrightarrow> lstrip l = []"
proof (cases "lstrip l")
  case Nil
  then show ?thesis by simp
next
  case (Cons c cs)
  then have "\<not> py_isspace c"
    unfolding lstrip_def by (metis hd_dropWhile list.distinct(1) list.sel(1))
  moreover assume "strip l = []"
  ultimately show ?thesis
    using Cons by (simp add: strip_def rstrip_Cons_nonspace)
qed

lemma blank_score_re: "blank_line l \<Longrightarrow> score_re l = None"
  by (simp add: blank_line_def score_re_def score_call_args_def strip_Nil_lstrip startswith_def
      str_def)

lemma strip_score_lines [simp]:
  "strip paragraph_line = paragraph_line"
  "strip small_paragraph_line = small_paragraph_line"
  "strip align_right_line = align_right_line"
  by (simp_all add: paragraph_line_def small_paragraph_line_def align_right_line_def str_def
      strip_def lstrip_def rstrip_def py_isspace_def)

lemma score_lines_distinct [simp]:
  "paragraph_line \<noteq> align_right_line" "paragraph_line \<noteq> []" "small_paragraph_line \<noteq> []"
  "paragraph_line \<noteq> small_paragraph_line" "[] \<noteq> paragraph_line" "[] \<noteq> small_paragraph_line"
  by (simp_all add: paragraph_line_def small_paragraph_line_def align_right_line_def str_def)

lemma strip_score_text [simp]: "strip (score_text n) = score_text n"
proof -
  have "rstrip (score_text n) = score_text n"
    by (simp add: rstrip_def score_text_def py_isspace_def)
  then show ?thesis
    by (simp add: strip_def lstrip_def score_text_def str_def py_isspace_def)
qed

lemma score_text_not_break [simp]: "\<not> break_line (score_text n)"
  by (simp add: break_line_def)
     (simp add: score_text_def paragraph_line_def small_paragraph_line_def str_def)

lemma score_re_call:
  assumes "score_re s = Some n"
  shows "strip s \<noteq> [] \<and> strip s \<noteq> paragraph_line \<and> strip s \<noteq> small_paragraph_line"
proof -
  from assms obtain u where "score_call_args s = Some u"
    by (cases "score_call_args s") (simp_all add: score_re_def)
  then consider r where "lstrip s = str ''insert_text('' @ r"
    | r where "lstrip s = str ''insert_equation('' @ r"
    | r where "lstrip s = str ''insert_latex_equation('' @ r"
    by (auto simp: score_call_args_def Let_def startswith_def prefix_def split: if_splits)
  then show ?thesis
    by cases
      (simp_all add: strip_def str_def rstrip_Cons_nonspace py_isspace_def paragraph_line_def
        small_paragraph_line_def)
qed

lemma score_step_blank:
  assumes "blank_line b"
  shows "sc_out (score_step st b) = sc_out st @ [b]"
    and "need_extra_blank_line (score_step st b) = need_extra_blank_line st"
  using assms blank_score_re [OF assms]
  by (simp_all add: score_step_def blank_line_def Let_def)

lemma score_step_plain:
  assumes "plain_content_line c"
  shows "sc_out (score_step st c) =
           sc_out st @ (if need_extra_blank_line st then [paragraph_line] else []) @ [c]"
    and "\<not> need_extra_blank_line (score_step st c)"
  using assms
  by (simp_all add: score_step_def plain_content_line_def blank_line_def break_line_def Let_def)

lemma score_from_blanks:
  "list_all blank_line bs \<Longrightarrow>
   sc_out (score_from st bs) = sc_out st @ bs \<and>
   need_extra_blank_line (score_from st bs) = need_extra_blank_line st"
proof (induction bs arbitrary: st)
  case Nil
  show ?case by (simp add: score_from_Nil)
next
  case (Cons b bs)
  then show ?case
    by (simp add: score_from_Cons score_step_blank)
qed

lemma score_line_block_mid_paragraph:
  assumes "out \<noteq> []" "\<not> break_line (last out)"
  shows "score_line_block n out =
           out @ [paragraph_line, align_right_line, score_text n, paragraph_line]"
  using assms pop_trailing_not_break [OF assms]
  by (simp add: score_line_block_def Let_def break_line_def)

lemma score_step_score:
  assumes "score_re s = Some n" "\<not> need_extra_blank_line st"
    "sc_out st \<noteq> []" "\<not> break_line (last (sc_out st))"
  shows "sc_out (score_step st s) =
           sc_out st @ [paragraph_line, align_right_line, score_text n, paragraph_line]"
    and "need_extra_blank_line (score_step st s)"
  using assms score_re_call [OF assms(1)] score_line_block_mid_paragraph [OF assms(3,4)]
  by (simp_all add: score_step_def Let_def)

lemma pop_trailing_score_block:
  "pop_trailing (out @ [paragraph_line, align_right_line, score_text n, paragraph_line]) =
     out @ [paragraph_line, align_right_line, score_text n, paragraph_line]"
proof -
  have a: "(out @ [paragraph_line, align_right_line, score_text n, paragraph_line]) !
             (length out + 2) = score_text n"
    by (simp add: nth_append)
  have b: "strip (score_text n) \<noteq> paragraph_line"
    using score_text_not_break [of n] by (simp add: break_line_def del: score_text_not_break)
  show ?thesis
    using a b by (subst pop_trailing.simps) simp
qed


lemma blank_not_break: "blank_line b \<Longrightarrow> \<not> break_line b"
  by (simp add: blank_line_def break_line_def)

lemma score_scan_mid_paragraph:
  assumes "plain_content_line c0" "list_all blank_line blanks0"
  shows "sc_out (score_scan (pre0 @ c0 # blanks0)) \<noteq> []"
    and "\<not> break_line (last (sc_out (score_scan (pre0 @ c0 # blanks0))))"
    and "\<not> need_extra_blank_line (score_scan (pre0 @ c0 # blanks0))"
proof -
  let ?stc = "score_step (score_scan pre0) c0"
  have e: "score_scan (pre0 @ c0 # blanks0) = score_from ?stc blanks0"
    by (simp add: score_scan_append score_from_Cons)
  obtain x where x: "sc_out ?stc = x @ [c0]"
    using score_step_plain(1) [OF assms(1), of "score_scan pre0"] by simp
  from score_from_blanks [OF assms(2), of ?stc]
  have o: "sc_out (score_from ?stc blanks0) = x @ c0 # blanks0"
    and n: "need_extra_blank_line (score_from ?stc blanks0) = need_extra_blank_line ?stc"
    by (simp_all add: x)
  show "sc_out (score_scan (pre0 @ c0 # blanks0)) \<noteq> []"
    by (simp add: e o)
  show "\<not> need_extra_blank_line (score_scan (pre0 @ c0 # blanks0))"
    by (simp add: e n score_step_plain(2) [OF assms(1)])
  have "\<not> break_line (last (c0 # blanks0))"
  proof (cases "blanks0 = []")
    case True
    with assms(1) show ?thesis by (simp add: plain_content_line_def)
  next
    case False
    then have "last blanks0 \<in> set blanks0" by simp
    with assms(2) have "blank_line (last blanks0)"
      by (simp add: list_all_iff)
    with False show ?thesis by (simp add: blank_not_break)
  qed
  then show "\<not> break_line (last (sc_out (score_scan (pre0 @ c0 # blanks0))))"
    by (simp add: e o)
qed

text \<open>
  Claim C3, as the code has it. Let a score line with the digits \<open>n\<close> follow a content
  line, with only blank lines between them. The output for the whole list is the output
  for the lines before the score line, which is not empty and does not end in a paragraph
  instruction, followed by exactly \<^verbatim>\<open>insert_paragraph()\<close>,
  \<^verbatim>\<open>set_align_right_next_line()\<close>, the plain-text instruction
  \<^verbatim>\<open>insert_text('[n...]')\<close> and \<^verbatim>\<open>insert_paragraph()\<close>, and by a rest. When only blank
  lines follow the score line the rest is these lines: no paragraph is added. When the next
  non-blank line is a content line, the rest is the blank lines, one more
  \<^verbatim>\<open>insert_paragraph()\<close> and that line, and what follows.
\<close>

theorem score_line_mid_paragraph:
  assumes "plain_content_line c0" and "list_all blank_line blanks0" and "score_re s = Some n"
  shows "\<exists>rest.
     ensure_score_right_align (pre0 @ c0 # blanks0 @ s # post) =
       ensure_score_right_align (pre0 @ c0 # blanks0) @
       [paragraph_line, align_right_line, score_text n, paragraph_line] @ rest \<and>
     ensure_score_right_align (pre0 @ c0 # blanks0) \<noteq> [] \<and>
     \<not> break_line (last (ensure_score_right_align (pre0 @ c0 # blanks0))) \<and>
     (list_all blank_line post \<longrightarrow> rest = post) \<and>
     (\<forall>blanks c post'.
        post = blanks @ c # post' \<and> list_all blank_line blanks \<and> plain_content_line c \<longrightarrow>
        (\<exists>rest'. rest = blanks @ [paragraph_line, c] @ rest'))"
proof -
  let ?st0 = "score_scan (pre0 @ c0 # blanks0)"
  let ?o0 = "sc_out ?st0"
  let ?o1 = "?o0 @ [paragraph_line, align_right_line, score_text n, paragraph_line]"
  let ?st1 = "score_step ?st0 s"
  note m = score_scan_mid_paragraph [OF assms(1,2), of pre0]
  have o1: "sc_out ?st1 = ?o1" and n1: "need_extra_blank_line ?st1"
    using score_step_score [OF assms(3) m(3) m(1) m(2)] by simp_all
  have fin: "ensure_score_right_align (pre0 @ c0 # blanks0 @ s # post) =
        sc_out (score_from ?st1 post)"
    using score_scan_append [of "pre0 @ c0 # blanks0" "s # post"]
    by (simp add: ensure_score_right_align_def score_from_Cons)
  have "prefix ?o1 (sc_out (score_from ?st1 post))"
    by (rule score_from_prefix) (simp_all add: pop_trailing_score_block o1)
  then obtain rest where rest: "sc_out (score_from ?st1 post) = ?o1 @ rest"
    by (auto simp: prefix_def)
  have blank_case: "rest = post" if "list_all blank_line post"
    using score_from_blanks [OF that, of ?st1] rest by (simp add: o1)
  have content_case: "\<exists>rest'. rest = blanks @ [paragraph_line, c] @ rest'"
    if p: "post = blanks @ c # post'" and b: "list_all blank_line blanks"
      and c: "plain_content_line c" for blanks c post'
  proof -
    let ?st2 = "score_from ?st1 blanks"
    let ?st3 = "score_step ?st2 c"
    let ?o3 = "?o1 @ blanks @ [paragraph_line, c]"
    have o2: "sc_out ?st2 = ?o1 @ blanks" and n2: "need_extra_blank_line ?st2"
      using score_from_blanks [OF b, of ?st1] n1 by (simp_all add: o1)
    have o3: "sc_out ?st3 = ?o3"
      using score_step_plain(1) [OF c, of ?st2] n2 by (simp add: o2)
    have "\<not> break_line (last ?o3)"
      using c by (simp add: plain_content_line_def)
    then have st: "pop_trailing ?o3 = ?o3"
      by (intro pop_trailing_not_break) simp_all
    have "score_from ?st1 post = score_from ?st3 post'"
      by (simp add: p score_from_append score_from_Cons)
    moreover have "prefix ?o3 (sc_out (score_from ?st3 post'))"
      using st by (rule score_from_prefix) (simp add: o3)
    ultimately obtain r where "?o1 @ rest = ?o3 @ r"
      using rest by (auto simp: prefix_def)
    then have "rest = blanks @ [paragraph_line, c] @ r"
      by simp
    then show ?thesis ..
  qed
  show ?thesis
    using fin rest m(1,2) blank_case content_case
    by (intro exI [of _ rest]) (auto simp: ensure_score_right_align_def)
qed

lemmas score_eval = score_re_def score_call_args_def expect_char_def re_digit_def
  unicode_Nd_ranges_def score_step_def score_scan_def score_init_def score_line_block_def
  ensure_score_right_align_def paragraph_line_def small_paragraph_line_def align_right_line_def
  score_text_def call1_def Let_def

definition score3 :: ustr where
  "score3 = str ''insert_text('' @ [SQ, 91, 51, 51216, 93, SQ, 41]"

definition score4 :: ustr where
  "score4 = str ''insert_text('' @ [SQ, 91, 52, 51216, 93, SQ, 41]"

lemma score_re_examples:
  "score_re score3 = Some [51]" "score_re score4 = Some [52]"
  "score_re (call1 ''insert_text'' ''a'') = None" "score_re (call1 ''insert_text'' ''b'') = None"
  by (simp_all add: score3_def score4_def score_eval str_eval)

lemma plain_content_examples:
  "plain_content_line (call1 ''insert_text'' ''a'')" "plain_content_line (call1 ''insert_text'' ''b'')"
  by (simp_all add: plain_content_line_def blank_line_def break_line_def score_re_examples)
     (simp_all add: call1_def paragraph_line_def small_paragraph_line_def str_eval)

lemma score_text_examples:
  "score_text [51] = score3" "score_text [52] = score4"
  by (simp_all add: score_text_def score3_def score4_def)

lemma strip_examples:
  "strip score3 = score3" "strip score4 = score4"
  "strip (call1 ''insert_text'' ''a'') = call1 ''insert_text'' ''a''"
  by (simp_all add: score3_def score4_def call1_def str_eval)

lemma example_lines_distinct:
  "score3 \<noteq> paragraph_line" "score3 \<noteq> small_paragraph_line" "score3 \<noteq> []"
  "score4 \<noteq> paragraph_line" "score4 \<noteq> small_paragraph_line" "score4 \<noteq> []"
  "call1 ''insert_text'' ''a'' \<noteq> paragraph_line"
  "call1 ''insert_text'' ''a'' \<noteq> small_paragraph_line"
  "call1 ''insert_text'' ''a'' \<noteq> []"
  by (simp_all add: score3_def score4_def call1_def paragraph_line_def small_paragraph_line_def
      str_def)

lemma pop_trailing_example:
  "pop_trailing [call1 ''insert_text'' ''a'', paragraph_line, align_right_line, score3,
                 paragraph_line, paragraph_line] =
   [call1 ''insert_text'' ''a'', paragraph_line, align_right_line, score3, paragraph_line]"
  by (subst pop_trailing.simps, simp, subst pop_trailing.simps)
     (simp add: strip_examples example_lines_distinct)

text \<open>
  Claim C3 as stated fails: the score line of 3 points stands mid-paragraph and a further
  non-blank line follows it, a second score line; the output has one paragraph instruction
  after the first score text and no additional one before what the second line becomes.
\<close>

theorem consecutive_score_lines_counterexample:
  "score_re ([call1 ''insert_text'' ''a'', score3, score4] ! 1) = Some [51] \<and>
   plain_content_line ([call1 ''insert_text'' ''a'', score3, score4] ! 0) \<and>
   strip ([call1 ''insert_text'' ''a'', score3, score4] ! 2) \<noteq> [] \<and>
   ensure_score_right_align [call1 ''insert_text'' ''a'', score3, score4] =
     [call1 ''insert_text'' ''a'', paragraph_line, align_right_line, score3, paragraph_line,
      align_right_line, score4, paragraph_line]"
proof -
  have p0: "pop_trailing [call1 ''insert_text'' ''a''] = [call1 ''insert_text'' ''a'']"
    by (subst pop_trailing.simps) (simp add: strip_examples example_lines_distinct)
  have "ensure_score_right_align [call1 ''insert_text'' ''a'', score3, score4] =
     [call1 ''insert_text'' ''a'', paragraph_line, align_right_line, score3, paragraph_line,
      align_right_line, score4, paragraph_line]"
    unfolding ensure_score_right_align_def score_scan_def score_init_def
    by (simp add: score_step_def score_re_examples strip_examples example_lines_distinct
        score_line_block_def p0 pop_trailing_example score_text_examples Let_def)
  then show ?thesis
    by (simp add: score_re_examples plain_content_examples strip_examples
        example_lines_distinct)
qed

theorem score_line_mid_paragraph_witness:
  "\<exists>rest'. ensure_score_right_align
            [call1 ''insert_text'' ''a'', score3, call1 ''insert_text'' ''b''] =
          [call1 ''insert_text'' ''a'', paragraph_line, align_right_line, score3,
           paragraph_line, paragraph_line, call1 ''insert_text'' ''b''] @ rest'"
proof -
  have a: "ensure_score_right_align [call1 ''insert_text'' ''a''] = [call1 ''insert_text'' ''a'']"
    unfolding ensure_score_right_align_def score_scan_def score_init_def
    by (simp add: score_step_def score_re_examples strip_examples example_lines_distinct)
  have b: "list_all blank_line []" by simp
  from score_line_mid_paragraph [OF plain_content_examples(1) b score_re_examples(1),
      of "[]" "[call1 ''insert_text'' ''b'']"]
  obtain rest where
    r: "ensure_score_right_align
          [call1 ''insert_text'' ''a'', score3, call1 ''insert_text'' ''b''] =
        [call1 ''insert_text'' ''a''] @
        [paragraph_line, align_right_line, score3, paragraph_line] @ rest"
    and c: "\<forall>blanks c post'.
        [call1 ''insert_text'' ''b''] = blanks @ c # post' \<and> list_all blank_line blanks \<and>
        plain_content_line c \<longrightarrow> (\<exists>rest'. rest = blanks @ [paragraph_line, c] @ rest')"
    by (auto simp: a score_text_examples)
  from c [rule_format, of "[]" "call1 ''insert_text'' ''b''" "[]"] plain_content_examples(2)
  obtain rest' where "rest = [paragraph_line, call1 ''insert_text'' ''b''] @ rest'"
    by auto
  with r show ?thesis by simp
qed

section \<open>Fallback tokenizer\<close>

text \<open>
  \<^verbatim>\<open>ScriptRunner._execute_fallback\<close>. The position \<open>i\<close> of the source is the text from
  \<open>i\<close> on: the loop only reads forward. \<open>names\<close> is the list of the instruction names in
  the order of the sort by decreasing length (a stable sort); at most one name followed by
  an opening parenthesis starts a given text. \<open>scan_args\<close> is the inner loop that collects
  the argument text up to the matching closing parenthesis.

  The controller is a parameter: a call returns the message of the exception it raised, if
  any, and the new state of the world. So are the cancellation test and the three library
  functions the source uses on the argument text: \<^verbatim>\<open>str.lower\<close>, \<^verbatim>\<open>int(float(...))\<close>
  and the parse of the table arguments by \<^verbatim>\<open>ast\<close>; the last two return \<open>None\<close> where
  the library raises (or where the parsed expression is not a call). \<open>fb_try\<close> is the body of
  the \<^verbatim>\<open>try\<close> statement with its two inner handlers that pass, and \<open>fb_dispatch\<close> adds the
  outer handler, which logs.
\<close>

definition funcs_no_args :: "ustr list" where
  "funcs_no_args =
     map str [''insert_paragraph'', ''insert_box'', ''exit_box'', ''insert_view_box'',
              ''insert_small_paragraph'', ''set_align_right_next_line'',
              ''set_align_justify_next_line'', ''set_table_border_white'']"

definition funcs_one_str :: "ustr list" where
  "funcs_one_str =
     map str [''insert_text'', ''insert_equation'', ''insert_latex_equation'',
              ''insert_template'', ''focus_placeholder'']"

definition funcs_one_int :: "ustr list" where
  "funcs_one_int = map str [''set_char_width_ratio'']"

definition names :: "ustr list" where
  "names =
     map str [''set_align_justify_next_line'', ''set_align_right_next_line'',
              ''insert_small_paragraph'', ''set_table_border_white'', ''insert_latex_equation'',
              ''set_char_width_ratio'', ''focus_placeholder'', ''insert_paragraph'',
              ''insert_view_box'', ''insert_equation'', ''insert_template'', ''set_underline'',
              ''insert_table'', ''insert_text'', ''insert_box'', ''exit_box'', ''set_bold'']"

definition match_name :: "ustr \<Rightarrow> ustr option" where
  "match_name rest = find (\<lambda>name. startswith rest (name @ [40])) names"

fun scan_args :: "ustr \<Rightarrow> nat \<Rightarrow> nat option \<Rightarrow> bool \<Rightarrow> ustr \<Rightarrow> ustr \<times> ustr" where
  "scan_args [] depth quote escaped args = (args, [])"
| "scan_args (ch # rest) depth quote escaped args =
     (if depth = 0 then (args, ch # rest)
      else if escaped then scan_args rest depth quote False (args @ [ch])
      else if ch = BSL then scan_args rest depth quote True (args @ [ch])
      else if quote \<noteq> None then
        scan_args rest depth (if quote = Some ch then None else quote) escaped (args @ [ch])
      else if ch = SQ \<or> ch = DQ then scan_args rest depth (Some ch) escaped (args @ [ch])
      else if ch = 40 then scan_args rest (depth + 1) quote escaped (args @ [ch])
      else if ch = 41 then
        (if depth - 1 = 0 then (args, rest)
         else scan_args rest (depth - 1) quote escaped (args @ [ch]))
      else scan_args rest depth quote escaped (args @ [ch]))"

datatype 't fb_call =
    NoArg ustr
  | OneStr ustr ustr
  | SetBold bool
  | SetUnderline "bool option"
  | OneInt ustr int
  | InsertTable 't

record ('t, 'w) fb_env =
  controller :: "'t fb_call \<Rightarrow> 'w \<Rightarrow> ustr option \<times> 'w"
  cancel_check :: "'w \<Rightarrow> bool"
  py_lower :: "ustr \<Rightarrow> ustr"
  py_int_float :: "ustr \<Rightarrow> int option"
  py_table_args :: "ustr \<Rightarrow> 't option"

definition unquote_arg :: "ustr \<Rightarrow> ustr" where
  "unquote_arg arg_str =
     (if startswith arg_str [SQ] \<or> startswith arg_str [DQ]
      then takeWhile (\<lambda>c. c \<noteq> hd arg_str) (tl arg_str)
      else arg_str)"

definition except_pass_call :: "ustr option \<times> 'w \<Rightarrow> ustr option \<times> 'w" where
  "except_pass_call r = (None, snd r)"

definition fb_try :: "('t, 'w) fb_env \<Rightarrow> ustr \<Rightarrow> ustr \<Rightarrow> 'w \<Rightarrow> ustr option \<times> 'w" where
  "fb_try env matched arg_str w =
     (if cancel_check env w then (Some (str ''cancelled''), w)
      else if matched \<in> set funcs_no_args then controller env (NoArg matched) w
      else if matched \<in> set funcs_one_str then
        controller env (OneStr matched (unquote_arg arg_str)) w
      else if matched = str ''set_bold'' then
        controller env (SetBold (contains (str ''true'') (py_lower env arg_str))) w
      else if matched = str ''set_underline'' then
        (if arg_str = [] then controller env (SetUnderline None) w
         else controller env
                (SetUnderline (Some (contains (str ''true'') (py_lower env arg_str)))) w)
      else if matched \<in> set funcs_one_int then
        except_pass_call
          (case (if arg_str \<noteq> [] then py_int_float env arg_str else Some 0) of
             None \<Rightarrow> (None, w)
           | Some val \<Rightarrow> controller env (OneInt matched val) w)
      else if matched = str ''insert_table'' then
        except_pass_call
          (case py_table_args env arg_str of
             None \<Rightarrow> (None, w)
           | Some t \<Rightarrow> controller env (InsertTable t) w)
      else (None, w))"

definition fallback_message :: "ustr \<Rightarrow> ustr \<Rightarrow> ustr" where
  "fallback_message matched exc = str ''[Fallback] '' @ matched @ str '' failed: '' @ exc"

definition fb_dispatch :: "('t, 'w) fb_env \<Rightarrow> ustr list \<times> 'w \<Rightarrow> ustr \<times> ustr \<Rightarrow> ustr list \<times> 'w" where
  "fb_dispatch env st tok =
     (case fb_try env (fst tok) (snd tok) (snd st) of
        (None, w) \<Rightarrow> (fst st, w)
      | (Some exc, w) \<Rightarrow> (fst st @ [fallback_message (fst tok) exc], w))"

datatype 'w fb_result = Finished "ustr list" 'w | ScriptCancelled "ustr list" 'w

lemma scan_args_length: "length (snd (scan_args rest depth quote escaped args)) \<le> length rest"
  by (induction rest depth quote escaped args rule: scan_args.induct) (auto simp: le_SucI)

function fallback_loop :: "('t, 'w) fb_env \<Rightarrow> ustr \<Rightarrow> ustr list \<times> 'w \<Rightarrow> 'w fb_result" where
  "fallback_loop env rest st =
     (if rest = [] then Finished (fst st) (snd st)
      else if cancel_check env (snd st) then ScriptCancelled (fst st) (snd st)
      else case match_name rest of
             None \<Rightarrow> fallback_loop env (tl rest) st
           | Some matched \<Rightarrow>
               fallback_loop env (snd (scan_args (drop (length matched + 1) rest) 1 None False []))
                 (fb_dispatch env st
                    (matched,
                     strip (fst (scan_args (drop (length matched + 1) rest) 1 None False [])))))"
  by pat_completeness auto
termination fallback_loop
proof (relation "measure (\<lambda>(env, rest, st). length rest)")
  show "wf (measure (\<lambda>(env, rest, st). length rest))" by simp
next
  fix env :: "('t, 'w) fb_env" and rest :: ustr and st :: "ustr list \<times> 'w"
  assume "rest \<noteq> []"
  then show "((env, tl rest, st), (env, rest, st)) \<in> measure (\<lambda>(env, rest, st). length rest)"
    by simp
next
  fix env :: "('t, 'w) fb_env" and rest :: ustr and st :: "ustr list \<times> 'w" and matched :: ustr
  assume "rest \<noteq> []"
  then have "length (drop (length matched + 1) rest) < length rest"
    by simp
  with scan_args_length [of "drop (length matched + 1) rest" 1 None False "[]"]
  show "((env, snd (scan_args (drop (length matched + 1) rest) 1 None False []),
          fb_dispatch env st
            (matched, strip (fst (scan_args (drop (length matched + 1) rest) 1 None False [])))),
         (env, rest, st)) \<in> measure (\<lambda>(env, rest, st). length rest)"
    by simp
qed

declare fallback_loop.simps [simp del]

definition execute_fallback :: "('t, 'w) fb_env \<Rightarrow> ustr \<Rightarrow> 'w \<Rightarrow> 'w fb_result" where
  "execute_fallback env script w = fallback_loop env script ([], w)"


subsection \<open>Liveness of the fallback\<close>

text \<open>
  The recognized instructions of a text, each with its stripped argument text, computed
  without the controller.
\<close>

function fallback_tokens :: "ustr \<Rightarrow> (ustr \<times> ustr) list" where
  "fallback_tokens rest =
     (if rest = [] then []
      else case match_name rest of
             None \<Rightarrow> fallback_tokens (tl rest)
           | Some matched \<Rightarrow>
               (matched, strip (fst (scan_args (drop (length matched + 1) rest) 1 None False []))) #
               fallback_tokens (snd (scan_args (drop (length matched + 1) rest) 1 None False [])))"
  by pat_completeness auto
termination fallback_tokens
proof (relation "measure length")
  show "wf (measure length)" by simp
next
  fix rest :: ustr
  assume "rest \<noteq> []"
  then show "(tl rest, rest) \<in> measure length" by simp
next
  fix rest matched :: ustr
  assume "rest \<noteq> []"
  then have "length (drop (length matched + 1) rest) < length rest"
    by simp
  with scan_args_length [of "drop (length matched + 1) rest" 1 None False "[]"]
  show "(snd (scan_args (drop (length matched + 1) rest) 1 None False []), rest) \<in> measure length"
    by simp
qed

declare fallback_tokens.simps [simp del]

definition silent_names :: "ustr list" where
  "silent_names = map str [''set_char_width_ratio'', ''insert_table'']"

lemma fallback_loop_tokens:
  "\<forall>w. \<not> cancel_check env w \<Longrightarrow>
   fallback_loop env rest st =
     Finished (fst (foldl (fb_dispatch env) st (fallback_tokens rest)))
              (snd (foldl (fb_dispatch env) st (fallback_tokens rest)))"
proof (induction env rest st rule: fallback_loop.induct)
  case (1 env rest st)
  from "1.prems" have nc: "\<not> cancel_check env (snd st)"
    by simp
  show ?case
  proof (cases "rest = []")
    case True
    then show ?thesis
      by (simp add: fallback_loop.simps fallback_tokens.simps)
  next
    case False
    show ?thesis
    proof (cases "match_name rest")
      case None
      have t: "fallback_tokens rest = fallback_tokens (tl rest)"
        using False None by (subst fallback_tokens.simps) simp
      have l: "fallback_loop env rest st = fallback_loop env (tl rest) st"
        using False None nc by (subst fallback_loop.simps) simp
      from "1.IH"(1) [OF False nc None "1.prems"] show ?thesis
        by (simp add: t l)
    next
      case (Some matched)
      let ?sc = "scan_args (drop (length matched + 1) rest) 1 None False []"
      have t: "fallback_tokens rest = (matched, strip (fst ?sc)) # fallback_tokens (snd ?sc)"
        using False Some by (subst fallback_tokens.simps) simp
      have l: "fallback_loop env rest st =
          fallback_loop env (snd ?sc) (fb_dispatch env st (matched, strip (fst ?sc)))"
        using False Some nc by (subst fallback_loop.simps) simp
      from "1.IH"(2) [OF False nc Some "1.prems"] show ?thesis
        by (simp add: t l)
    qed
  qed
qed

lemma fb_try_silent:
  assumes "\<not> cancel_check env w" "matched \<in> set silent_names"
  shows "fst (fb_try env matched arg_str w) = None"
proof -
  from assms(2) have "matched = str ''set_char_width_ratio'' \<or> matched = str ''insert_table''"
    by (simp add: silent_names_def)
  then show ?thesis
    using assms(1)
    by (auto simp: fb_try_def funcs_no_args_def funcs_one_str_def funcs_one_int_def str_def
        except_pass_call_def)
qed

lemma fb_dispatch_log:
  "fst (fb_dispatch env st tok) =
     fst st @ (case fst (fb_try env (fst tok) (snd tok) (snd st)) of
                 None \<Rightarrow> [] | Some exc \<Rightarrow> [fallback_message (fst tok) exc])"
  by (simp add: fb_dispatch_def split: prod.splits option.splits)


lemma fb_try_loud:
  assumes "\<not> cancel_check env w"
  shows "matched \<in> set funcs_no_args \<Longrightarrow>
           fb_try env matched arg_str w = controller env (NoArg matched) w"
    and "matched \<in> set funcs_one_str \<Longrightarrow>
           fb_try env matched arg_str w = controller env (OneStr matched (unquote_arg arg_str)) w"
    and "fb_try env (str ''set_bold'') arg_str w =
           controller env (SetBold (contains (str ''true'') (py_lower env arg_str))) w"
    and "fb_try env (str ''set_underline'') arg_str w =
           (if arg_str = [] then controller env (SetUnderline None) w
            else controller env
                   (SetUnderline (Some (contains (str ''true'') (py_lower env arg_str)))) w)"
  using assms
  by (auto simp: fb_try_def funcs_no_args_def funcs_one_str_def str_def)

lemma fallback_tokens_skip:
  "match_name (c # cs) = None \<Longrightarrow> fallback_tokens (c # cs) = fallback_tokens cs"
  by (subst fallback_tokens.simps) simp

text \<open>
  Claim C9, as the code has it. When no cancellation is requested, the fallback returns
  for every text, after dispatching every recognized instruction of the text in order,
  whatever the earlier ones did. A dispatch adds to the log the message of the exception
  that reached the outer handler, and nothing else; a failure of
  \<^verbatim>\<open>set_char_width_ratio\<close> or \<^verbatim>\<open>insert_table\<close> never reaches it, a failure of an
  instruction without argument, with one string argument, of \<^verbatim>\<open>set_bold\<close> or of
  \<^verbatim>\<open>set_underline\<close> does: what the controller call returns is what the handler gets.
  A character at which no name starts is skipped alone.
\<close>

theorem fallback_terminates_and_continues:
  "\<forall>w. \<not> cancel_check env w \<Longrightarrow>
   execute_fallback env script w =
     Finished (fst (foldl (fb_dispatch env) ([], w) (fallback_tokens script)))
              (snd (foldl (fb_dispatch env) ([], w) (fallback_tokens script))) \<and>
   (\<forall>st tok. fst (fb_dispatch env st tok) =
        fst st @ (case fst (fb_try env (fst tok) (snd tok) (snd st)) of
                    None \<Rightarrow> [] | Some exc \<Rightarrow> [fallback_message (fst tok) exc])) \<and>
   (\<forall>matched arg_str w'. matched \<in> set silent_names \<longrightarrow>
        fst (fb_try env matched arg_str w') = None) \<and>
   (\<forall>matched arg_str w'. matched \<in> set funcs_no_args \<longrightarrow>
        fb_try env matched arg_str w' = controller env (NoArg matched) w') \<and>
   (\<forall>matched arg_str w'. matched \<in> set funcs_one_str \<longrightarrow>
        fb_try env matched arg_str w' =
          controller env (OneStr matched (unquote_arg arg_str)) w') \<and>
   (\<forall>arg_str w'. fb_try env (str ''set_bold'') arg_str w' =
        controller env (SetBold (contains (str ''true'') (py_lower env arg_str))) w') \<and>
   (\<forall>arg_str w'. fb_try env (str ''set_underline'') arg_str w' =
        (if arg_str = [] then controller env (SetUnderline None) w'
         else controller env
                (SetUnderline (Some (contains (str ''true'') (py_lower env arg_str)))) w')) \<and>
   (\<forall>c cs. match_name (c # cs) = None \<longrightarrow> fallback_tokens (c # cs) = fallback_tokens cs)"
proof -
  assume nc: "\<forall>w. \<not> cancel_check env w"
  have 1: "execute_fallback env script w =
     Finished (fst (foldl (fb_dispatch env) ([], w) (fallback_tokens script)))
              (snd (foldl (fb_dispatch env) ([], w) (fallback_tokens script)))"
    unfolding execute_fallback_def using nc by (rule fallback_loop_tokens)
  from nc have n: "\<not> cancel_check env w'" for w'
    by simp
  show ?thesis
    using 1 fb_dispatch_log [of env] fb_try_silent [OF n] fb_try_loud [OF n]
      fallback_tokens_skip
    by (intro conjI allI impI) blast+
qed

definition failing_env :: "(unit, unit) fb_env" where
  "failing_env =
     \<lparr>controller = (\<lambda>c w. (Some (str ''sink down''), w)),
      cancel_check = (\<lambda>w. False),
      py_lower = (\<lambda>s. s),
      py_int_float = (\<lambda>s. if s = str ''50'' then Some 50 else None),
      py_table_args = (\<lambda>s. None)\<rparr>"

lemmas fb_eval = match_name_def names_def funcs_no_args_def funcs_one_str_def
  funcs_one_int_def fb_dispatch_def fb_try_def except_pass_call_def fallback_message_def
  unquote_arg_def failing_env_def

lemma tokens_example:
  "fallback_tokens (str ''set_char_width_ratio(50)insert_paragraph()'') =
     [(str ''set_char_width_ratio'', str ''50''), (str ''insert_paragraph'', [])]"
  by (simp add: fallback_tokens.simps fb_eval str_eval)

text \<open>
  Claim C9 as stated fails: on a controller all of whose calls raise, the call of
  \<^verbatim>\<open>set_char_width_ratio\<close> fails and leaves no log entry; the call of
  \<^verbatim>\<open>insert_paragraph\<close> after it is logged.
\<close>

theorem fallback_silent_failure_counterexample:
  "fst (controller failing_env (OneInt (str ''set_char_width_ratio'') 50) ()) =
     Some (str ''sink down'') \<and>
   execute_fallback failing_env (str ''set_char_width_ratio(50)insert_paragraph()'') () =
     Finished [fallback_message (str ''insert_paragraph'') (str ''sink down'')] ()"
  by (simp add: execute_fallback_def failing_env_def)
     (simp add: fallback_loop.simps fb_eval str_eval)

theorem fallback_terminates_witness:
  "execute_fallback failing_env (str ''x)insert_box()'') () =
     Finished [fallback_message (str ''insert_box'') (str ''sink down'')] ()"
proof -
  have c: "\<forall>w. \<not> cancel_check failing_env w"
    by (simp add: failing_env_def)
  have t: "fallback_tokens (str ''x)insert_box()'') = [(str ''insert_box'', [])]"
    by (simp add: fallback_tokens.simps fb_eval str_eval)
  from fallback_terminates_and_continues [OF c, of "str ''x)insert_box()''" "()"]
  show ?thesis
    by (simp add: t) (simp add: fb_eval str_eval)
qed

section \<open>Typing worker\<close>

text \<open>
  \<^verbatim>\<open>TypingWorker.run\<close> and \<^verbatim>\<open>_is_rpc_unavailable_message\<close> of the user interface
  module. The worker is one thread that takes the jobs of its queue in order; the model
  runs it on the jobs queued so far and ends in \<open>Waiting\<close> when the queue is empty. What
  the worker calls is a parameter: connecting a new controller, running a whole script with
  \<^verbatim>\<open>ScriptRunner.run\<close> (which returns, is cancelled, or raises an exception with a
  message; the worker treats \<^verbatim>\<open>HwpControllerError\<close> and every other exception alike) and
  reading the cancellation flag, each on the state of the world outside the worker. The
  state of the worker records the signals it emitted and the calls it made. The flag is
  read twice before a job is started; nothing changes the world between the two reads.
  An exception of the first connection leaves \<^verbatim>\<open>run\<close> unhandled: \<open>Crashed\<close>.
\<close>

definition rpc_unavailable_korean :: ustr where
  "rpc_unavailable_korean =
     [82, 80, 67, 32, 49436, 48260, 47484, 32, 49324, 50857, 54624, 32, 49688, 32,
      50630, 49845, 45768, 45796]"

definition is_rpc_unavailable_message :: "ustr \<Rightarrow> bool" where
  "is_rpc_unavailable_message message \<longleftrightarrow>
     contains rpc_unavailable_korean message \<or>
     contains (str ''RPC server is unavailable'') message \<or>
     contains (str ''0x800706BA'') message \<or>
     contains (str ''-2147023174'') message"

datatype run_exc = CancelledExc | ErrorExc ustr

definition exc_message :: "run_exc \<Rightarrow> ustr" where
  "exc_message e = (case e of CancelledExc \<Rightarrow> str ''cancelled'' | ErrorExc msg \<Rightarrow> msg)"

datatype event = ItemStarted int | ItemFinished int | CancelledSignal | ErrorSignal ustr

datatype action = Connect | RunScript ustr

datatype status = Waiting | StoppedCancelled | StoppedError | Crashed ustr

record 'w worker_env =
  connect :: "'w \<Rightarrow> ustr option \<times> 'w"
  run_script :: "ustr \<Rightarrow> 'w \<Rightarrow> run_exc option \<times> 'w"
  cancel_is_set :: "'w \<Rightarrow> bool"

record 'w worker_state =
  events :: "event list"
  actions :: "action list"
  has_controller :: bool
  world :: 'w

definition signal :: "event \<Rightarrow> 'w worker_state \<Rightarrow> 'w worker_state" where
  "signal e st = st\<lparr>events := events st @ [e]\<rparr>"

definition new_controller :: "'w worker_env \<Rightarrow> 'w worker_state \<Rightarrow> ustr option \<times> 'w worker_state" where
  "new_controller env st =
     (case connect env (world st) of
        (r, w) \<Rightarrow> (r, st\<lparr>actions := actions st @ [Connect], has_controller := True, world := w\<rparr>))"

definition runner_run :: "'w worker_env \<Rightarrow> ustr \<Rightarrow> 'w worker_state \<Rightarrow> run_exc option \<times> 'w worker_state" where
  "runner_run env script st =
     (case run_script env script (world st) of
        (r, w) \<Rightarrow> (r, st\<lparr>actions := actions st @ [RunScript script], world := w\<rparr>))"

definition retry_script :: "'w worker_env \<Rightarrow> int \<Rightarrow> ustr \<Rightarrow> 'w worker_state \<Rightarrow> status option \<times> 'w worker_state" where
  "retry_script env idx script st =
     (case new_controller env st of
        (Some msg, st) \<Rightarrow> (Some StoppedError, signal (ErrorSignal msg) st)
      | (None, st) \<Rightarrow>
          (case runner_run env script st of
             (Some retry_exc, st) \<Rightarrow> (Some StoppedError, signal (ErrorSignal (exc_message retry_exc)) st)
           | (None, st) \<Rightarrow> (None, signal (ItemFinished idx) st)))"

definition process_job :: "'w worker_env \<Rightarrow> int \<times> ustr \<Rightarrow> 'w worker_state \<Rightarrow> status option \<times> 'w worker_state" where
  "process_job env job st =
     (if cancel_is_set env (world st) then (Some StoppedCancelled, signal CancelledSignal st)
      else
        case (if has_controller st then (None, st) else new_controller env st) of
          (Some msg, st) \<Rightarrow> (Some (Crashed msg), st)
        | (None, st) \<Rightarrow>
            (case runner_run env (snd job) (signal (ItemStarted (fst job)) st) of
               (None, st) \<Rightarrow> (None, signal (ItemFinished (fst job)) st)
             | (Some CancelledExc, st) \<Rightarrow> (Some StoppedCancelled, signal CancelledSignal st)
             | (Some (ErrorExc msg), st) \<Rightarrow>
                 if is_rpc_unavailable_message msg then retry_script env (fst job) (snd job) st
                 else (Some StoppedError, signal (ErrorSignal msg) st)))"

fun worker_loop :: "'w worker_env \<Rightarrow> (int \<times> ustr) list \<Rightarrow> 'w worker_state \<Rightarrow> status \<times> 'w worker_state" where
  "worker_loop env [] st =
     (if cancel_is_set env (world st) then (StoppedCancelled, signal CancelledSignal st)
      else (Waiting, st))"
| "worker_loop env (job # jobs) st =
     (case process_job env job st of
        (None, st) \<Rightarrow> worker_loop env jobs st
      | (Some s, st) \<Rightarrow> (s, st))"


text \<open>
  The handlers of a failed run, for a worker that holds a controller: what claim C8 says,
  on the path where the code does it. Let the run of a script raise an exception with the
  message \<open>msg\<close>. If the
  message is not classified as transport-unavailable, the worker emits the error with the
  message and stops: the script was run once and no later job is started. If it is, the
  worker connects a new controller and runs the same whole script once more, and nothing
  else: an exception of the new connection or of the second run, whatever its message, is
  emitted as the error and the worker stops; when the second run returns, the item is
  finished and the worker goes on with the queue. The only calls are connections and runs
  of the whole script.
\<close>

lemma transport_unavailable_retried_once:
  "\<not> cancel_is_set env (world st) \<Longrightarrow> has_controller st \<Longrightarrow>
   run_script env script (world st) = (Some (ErrorExc msg), w1) \<Longrightarrow>
   (\<not> is_rpc_unavailable_message msg \<longrightarrow>
      worker_loop env ((idx, script) # jobs) st =
        (StoppedError,
         st\<lparr>events := events st @ [ItemStarted idx, ErrorSignal msg],
            actions := actions st @ [RunScript script], world := w1\<rparr>)) \<and>
   (is_rpc_unavailable_message msg \<longrightarrow>
      (\<forall>cmsg w2. connect env w1 = (Some cmsg, w2) \<longrightarrow>
         worker_loop env ((idx, script) # jobs) st =
           (StoppedError,
            st\<lparr>events := events st @ [ItemStarted idx, ErrorSignal cmsg],
               actions := actions st @ [RunScript script, Connect], world := w2\<rparr>)) \<and>
      (\<forall>w2 e w3. connect env w1 = (None, w2) \<and> run_script env script w2 = (Some e, w3) \<longrightarrow>
         worker_loop env ((idx, script) # jobs) st =
           (StoppedError,
            st\<lparr>events := events st @ [ItemStarted idx, ErrorSignal (exc_message e)],
               actions := actions st @ [RunScript script, Connect, RunScript script],
               world := w3\<rparr>)) \<and>
      (\<forall>w2 w3. connect env w1 = (None, w2) \<and> run_script env script w2 = (None, w3) \<longrightarrow>
         worker_loop env ((idx, script) # jobs) st =
           worker_loop env jobs
             (st\<lparr>events := events st @ [ItemStarted idx, ItemFinished idx],
                 actions := actions st @ [RunScript script, Connect, RunScript script],
                 world := w3\<rparr>)))"
proof -
  assume c: "\<not> cancel_is_set env (world st)" and h: "has_controller st"
    and r: "run_script env script (world st) = (Some (ErrorExc msg), w1)"
  let ?st1 = "st\<lparr>events := events st @ [ItemStarted idx],
                 actions := actions st @ [RunScript script], world := w1\<rparr>"
  have run1: "runner_run env script (signal (ItemStarted idx) st) = (Some (ErrorExc msg), ?st1)"
    using r by (simp add: runner_run_def signal_def)
  have p: "process_job env (idx, script) st =
      (if is_rpc_unavailable_message msg then retry_script env idx script ?st1
       else (Some StoppedError, signal (ErrorSignal msg) ?st1))"
    using c h by (simp add: process_job_def run1)
  have a: "\<not> is_rpc_unavailable_message msg \<longrightarrow>
      worker_loop env ((idx, script) # jobs) st =
        (StoppedError,
         st\<lparr>events := events st @ [ItemStarted idx, ErrorSignal msg],
            actions := actions st @ [RunScript script], world := w1\<rparr>)"
    by (simp add: p signal_def)
  have hc: "st\<lparr>has_controller := True\<rparr> = st"
    using h by simp
  have b1: "worker_loop env ((idx, script) # jobs) st =
           (StoppedError,
            st\<lparr>events := events st @ [ItemStarted idx, ErrorSignal cmsg],
               actions := actions st @ [RunScript script, Connect], world := w2\<rparr>)"
    if "is_rpc_unavailable_message msg" "connect env w1 = (Some cmsg, w2)" for cmsg w2
    using that h by (simp add: p retry_script_def new_controller_def signal_def)
  have b2: "worker_loop env ((idx, script) # jobs) st =
           (StoppedError,
            st\<lparr>events := events st @ [ItemStarted idx, ErrorSignal (exc_message e)],
               actions := actions st @ [RunScript script, Connect, RunScript script],
               world := w3\<rparr>)"
    if "is_rpc_unavailable_message msg" "connect env w1 = (None, w2)"
      "run_script env script w2 = (Some e, w3)" for w2 e w3
    using that h
    by (simp add: p retry_script_def new_controller_def runner_run_def signal_def)
  have b3: "worker_loop env ((idx, script) # jobs) st =
           worker_loop env jobs
             (st\<lparr>events := events st @ [ItemStarted idx, ItemFinished idx],
                 actions := actions st @ [RunScript script, Connect, RunScript script],
                 world := w3\<rparr>)"
    if t: "is_rpc_unavailable_message msg" "connect env w1 = (None, w2)"
      "run_script env script w2 = (None, w3)" for w2 w3
  proof -
    have "process_job env (idx, script) st =
        (None, st\<lparr>events := events st @ [ItemStarted idx, ItemFinished idx],
                 actions := actions st @ [RunScript script, Connect, RunScript script],
                 world := w3\<rparr>)"
      using t h
      by (simp add: p retry_script_def new_controller_def runner_run_def signal_def hc)
    then show ?thesis
      by simp
  qed
  from a b1 b2 b3 show ?thesis
    by blast
qed

definition rpc_message :: ustr where
  "rpc_message = str ''(-2147023174, RPC server is unavailable)''"

definition flaky_env :: "nat worker_env" where
  "flaky_env =
     \<lparr>connect = (\<lambda>w. (None, w)),
      run_script = (\<lambda>s w. (if w = 0 then Some (ErrorExc rpc_message) else None, Suc w)),
      cancel_is_set = (\<lambda>w. False)\<rparr>"

definition idle_worker :: "nat worker_state" where
  "idle_worker = \<lparr>events = [], actions = [], has_controller = True, world = 0\<rparr>"

lemma rpc_message_classified: "is_rpc_unavailable_message rpc_message"
  by (simp add: is_rpc_unavailable_message_def rpc_message_def str_def)

lemma transport_unavailable_retry_example:
  "worker_loop flaky_env [(7, str ''insert_paragraph()'')] idle_worker =
     (Waiting,
      \<lparr>events = [ItemStarted 7, ItemFinished 7],
       actions = [RunScript (str ''insert_paragraph()''), Connect,
                  RunScript (str ''insert_paragraph()'')],
       has_controller = True, world = 2\<rparr>)"
proof -
  have c: "\<not> cancel_is_set flaky_env (world idle_worker)"
    and h: "has_controller idle_worker"
    and r: "run_script flaky_env (str ''insert_paragraph()'') (world idle_worker) =
         (Some (ErrorExc rpc_message), 1)"
    by (simp_all add: flaky_env_def idle_worker_def)
  from transport_unavailable_retried_once [OF c h r, of 7 "[]"] rpc_message_classified
  show ?thesis
    by (simp add: flaky_env_def idle_worker_def)
qed

text \<open>
  The first job of a worker: it has no controller yet, and the connection it makes is
  outside the handlers. \<open>connect_rpc_message\<close> is the message of the exception that
  \<^verbatim>\<open>HwpController.connect\<close> raises through \<^verbatim>\<open>_format_connect_error\<close> when the
  remote procedure call server of the word processor is unavailable.
\<close>

definition connect_rpc_message :: ustr where
  "connect_rpc_message =
     [72, 87, 80, 32, 50672, 44208, 32, 49892, 54056, 58, 32, 82, 80, 67, 32, 49436, 48260,
      47484, 32, 49324, 50857, 54624, 32, 49688, 32, 50630, 49845, 45768, 45796, 46, 32,
      54620, 44544, 40, 72, 87, 80, 41, 51012, 32, 50756, 51204, 55176, 32, 51333, 47308,
      54664, 45796, 44032, 32, 45796, 49884, 32, 49892, 54665, 54616, 44256, 44, 32, 76, 105,
      116, 101, 80, 114, 111, 50752, 32, 72, 87, 80, 47484, 32, 44057, 51008, 32, 44428,
      54620, 40, 51068, 48152, 47, 44288, 47532, 51088, 41, 51004, 47196, 32, 49892, 54665,
      54616, 49464, 50836, 46]"

definition unreachable_env :: "nat worker_env" where
  "unreachable_env =
     \<lparr>connect = (\<lambda>w. (Some connect_rpc_message, Suc w)),
      run_script = (\<lambda>s w. (None, Suc w)),
      cancel_is_set = (\<lambda>w. False)\<rparr>"

definition new_worker :: "nat worker_state" where
  "new_worker = \<lparr>events = [], actions = [], has_controller = False, world = 0\<rparr>"

text \<open>
  Claim C8 at the first job of a worker. The first connection fails with a message that is
  classified as transport-unavailable. The exception leaves \<^verbatim>\<open>run\<close>: the worker makes
  no second connection and does not run the script, and it emits no signal, neither the
  start of the item nor the error. The claim asks for one retry with a new connection, and
  for an error given to the caller when there is none.
\<close>

theorem first_connection_failure_unhandled:
  "is_rpc_unavailable_message connect_rpc_message \<and>
   worker_loop unreachable_env [(7, str ''insert_paragraph()'')] new_worker =
     (Crashed connect_rpc_message,
      \<lparr>events = [], actions = [Connect], has_controller = True, world = 1\<rparr>)"
  by (simp add: is_rpc_unavailable_message_def connect_rpc_message_def
      rpc_unavailable_korean_def unreachable_env_def new_worker_def process_job_def
      new_controller_def)


section \<open>Normalization pipeline\<close>
































































subsection \<open>A second run of the pipeline\<close>






















subsection \<open>Lines that the last three passes leave alone\<close>












subsection \<open>Scripts that the pipeline leaves alone\<close>












lemma contains_prefix: "prefix p s \<Longrightarrow> contains p s"
  by (cases s) simp_all









































end
